theory Spec2Isabelle
  imports Main "HOL-Library.Multiset"
begin

section \<open>OCR output collection of \<^verbatim>\<open>webhook/document_extract.py\<close>\<close>

text \<open>
  The module is glue around two remote services: an object store (list, delete and read
  objects of a bucket) and an OCR service (submit a batch request, wait for it). The
  embedding keeps every line of the three functions and makes the services explicit:
  the object store is a value that is passed and returned, the effects on the outside
  world are recorded in a trace, an exception is a value of type \<open>error\<close>, and what the
  libraries compute without this module having a say (decoding and parsing JSON, the
  random identifier, the OCR service itself) is a parameter of the functions.

  A Python \<open>str\<close> is modelled by \<open>string\<close>: a character is a code point below 256.
  In that range the decimal digits that \<open>\d\<close> matches are exactly \<open>0\<close> to \<open>9\<close>.
\<close>

subsection \<open>Exceptions\<close>

datatype error =
    NotFound              \<comment> \<open>the object store: no such bucket, no such object\<close>
  | AttributeError        \<comment> \<open>\<open>None.group\<close>, \<open>.get\<close> on a value that is not a dict\<close>
  | TypeError             \<comment> \<open>iterating, indexing or concatenating a value of the wrong type\<close>
  | KeyError
  | UnicodeDecodeError
  | JSONDecodeError
  | TimeoutError          \<comment> \<open>\<open>operation.result\<close> ran out of time\<close>
  | GoogleAPICallError    \<comment> \<open>any other failure of the OCR service\<close>

subsection \<open>Strings\<close>

definition startswith :: "string \<Rightarrow> string \<Rightarrow> bool" where
  "startswith s p = (take (length p) s = p)"

definition endswith :: "string \<Rightarrow> string \<Rightarrow> bool" where
  "endswith s p = (length p \<le> length s \<and> drop (length s - length p) s = p)"

text \<open>What is left of \<open>s\<close> after the literal \<open>p\<close>, when \<open>s\<close> begins with it.\<close>

definition after_literal :: "string \<Rightarrow> string \<Rightarrow> string option" where
  "after_literal p s = (if startswith s p then Some (drop (length p) s) else None)"

text \<open>\<open>k in s\<close> for two strings: \<open>k\<close> occurs in \<open>s\<close> as a substring.\<close>

fun str_contains :: "string \<Rightarrow> string \<Rightarrow> bool" where
  "str_contains k [] = (k = [])"
| "str_contains k (c # cs) = (startswith (c # cs) k \<or> str_contains k cs)"

definition is_digit :: "char \<Rightarrow> bool" where
  "is_digit c = (c \<in> set ''0123456789'')"

definition digit_value :: "char \<Rightarrow> int" where
  "digit_value c = int (of_char c) - 48"

text \<open>
  \<open>int(s)\<close> on a run of decimal digits. (Recent interpreters refuse runs of more than
  4300 digits; the name of an object is at most 1024 bytes long.)
\<close>

definition py_int :: "string \<Rightarrow> int" where
  "py_int ds = foldl (\<lambda>a c. 10 * a + digit_value c) 0 ds"

subsection \<open>The two regular expressions\<close>

text \<open>
  \<^verbatim>\<open>re.match(r"gs://([^/]+)/(.+)", uri)\<close>: anchored at the start only. The first group is
  the longest run of characters other than \<open>/\<close> (giving a character back cannot help:
  the next one would have to be \<open>/\<close>), the second the longest run of characters other
  than the line feed, which is what \<open>.\<close> matches. Both runs hold at least one character.
  The result is the pair of the two groups.
\<close>

definition re_match_gs :: "string \<Rightarrow> (string \<times> string) option" where
  "re_match_gs uri =
     (case after_literal ''gs://'' uri of
        None \<Rightarrow> None
      | Some r \<Rightarrow>
          (let g1 = takeWhile (\<lambda>c. c \<noteq> CHR ''/'') r;
               r1 = dropWhile (\<lambda>c. c \<noteq> CHR ''/'') r
           in if g1 = [] then None
              else (case after_literal ''/'' r1 of
                      None \<Rightarrow> None
                    | Some r2 \<Rightarrow>
                        (let g2 = takeWhile (\<lambda>c. c \<noteq> CHR 0x0A) r2
                         in if g2 = [] then None else Some (g1, g2)))))"

text \<open>
  \<^verbatim>\<open>output-(\d+)-to-\d+\<close> tried at the start of \<open>s\<close>: the group is the longest run of
  digits after \<open>output-\<close> (a shorter run would be followed by a digit, not by \<open>-\<close>), and
  one digit after \<open>-to-\<close> is enough for the last \<open>\d+\<close>. The result is group 1.
\<close>

definition match_output_here :: "string \<Rightarrow> string option" where
  "match_output_here s =
     (case after_literal ''output-'' s of
        None \<Rightarrow> None
      | Some r \<Rightarrow>
          (let g1 = takeWhile is_digit r;
               r1 = dropWhile is_digit r
           in if g1 = [] then None
              else (case after_literal ''-to-'' r1 of
                      None \<Rightarrow> None
                    | Some r2 \<Rightarrow>
                        (case r2 of
                           [] \<Rightarrow> None
                         | c # _ \<Rightarrow> if is_digit c then Some g1 else None))))"

text \<open>\<^verbatim>\<open>re.search\<close>: the match at the leftmost position that has one.\<close>

fun re_search_output :: "string \<Rightarrow> string option" where
  "re_search_output [] = match_output_here []"
| "re_search_output (c # cs) =
     (case match_output_here (c # cs) of
        Some g \<Rightarrow> Some g
      | None \<Rightarrow> re_search_output cs)"

subsection \<open>The object store\<close>

record blob =
  name :: string
  content :: string

text \<open>
  A bucket is the list of its objects in the order in which the service lists them; the
  store maps the names of the buckets that exist to their contents. In a bucket of the
  service every name occurs once.
\<close>

type_synonym bucket = "blob list"
type_synonym store = "string \<rightharpoonup> bucket"

definition wf_bucket :: "bucket \<Rightarrow> bool" where
  "wf_bucket bs = distinct (map name bs)"

text \<open>\<^verbatim>\<open>storage_client.get_bucket(bucket_name)\<close>\<close>

definition get_bucket :: "store \<Rightarrow> string \<Rightarrow> error + bucket" where
  "get_bucket st bucket_name =
     (case st bucket_name of None \<Rightarrow> Inl NotFound | Some bs \<Rightarrow> Inr bs)"

text \<open>\<^verbatim>\<open>bucket.list_blobs(prefix=prefix)\<close>\<close>

definition list_blobs :: "bucket \<Rightarrow> string \<Rightarrow> blob list" where
  "list_blobs bs prefix = filter (\<lambda>b. startswith (name b) prefix) bs"

text \<open>\<^verbatim>\<open>blob.delete()\<close>: the object of that name leaves the bucket; none there is an error.\<close>

definition delete_blob :: "bucket \<Rightarrow> blob \<Rightarrow> error + bucket" where
  "delete_blob bs b =
     (if name b \<in> name ` set bs
      then Inr (filter (\<lambda>x. name x \<noteq> name b) bs)
      else Inl NotFound)"

subsection \<open>The outside world\<close>

datatype feature_type =
    TYPE_UNSPECIFIED | FACE_DETECTION | LANDMARK_DETECTION | LOGO_DETECTION
  | LABEL_DETECTION | TEXT_DETECTION | DOCUMENT_TEXT_DETECTION | SAFE_SEARCH_DETECTION
  | IMAGE_PROPERTIES | CROP_HINTS | WEB_DETECTION | PRODUCT_SEARCH | OBJECT_LOCALIZATION

record input_config =
  gcs_source :: string
  mime_type :: string

record output_config =
  gcs_destination :: string
  batch_size :: int

record async_annotate_file_request =
  features :: "feature_type list"
  input_cfg :: input_config
  output_cfg :: output_config

text \<open>What the module does to the outside world, in the order in which it does it.\<close>

datatype event =
    Delete string string                               \<comment> \<open>bucket, object name\<close>
  | Print string
  | AsyncBatchAnnotateFiles "async_annotate_file_request list"
  | OperationResult int                                \<comment> \<open>the wait, with its timeout\<close>

record world =
  storage :: store
  trace :: "event list"

definition emit :: "event \<Rightarrow> world \<Rightarrow> world" where
  "emit e w = w\<lparr>trace := trace w @ [e]\<rparr>"

subsection \<open>Parsed JSON and the operations Python applies to it\<close>

text \<open>
  What \<^verbatim>\<open>json.loads\<close> returns: \<open>None\<close>, a bool, an int, a float, a str, a list or a
  dict. A dict is the list of its items in insertion order, each key once. The value of
  a number is never read by this module; a float is kept as mantissa and exponent.
\<close>

datatype json =
    JNull
  | JBool bool
  | JInt int
  | JFloat int int
  | JString string
  | JArray "json list"
  | JObject "(string \<times> json) list"

text \<open>\<^verbatim>\<open>for x in v\<close>: the values the loop runs over.\<close>

fun py_iter :: "json \<Rightarrow> error + json list" where
  "py_iter (JArray xs) = Inr xs"
| "py_iter (JObject kvs) = Inr (map (\<lambda>kv. JString (fst kv)) kvs)"
| "py_iter (JString s) = Inr (map (\<lambda>c. JString [c]) s)"
| "py_iter _ = Inl TypeError"

text \<open>\<^verbatim>\<open>k in v\<close> for a str \<open>k\<close>.\<close>

fun py_contains :: "string \<Rightarrow> json \<Rightarrow> error + bool" where
  "py_contains k (JObject kvs) = Inr (k \<in> fst ` set kvs)"
| "py_contains k (JArray xs) = Inr (JString k \<in> set xs)"
| "py_contains k (JString s) = Inr (str_contains k s)"
| "py_contains k _ = Inl TypeError"

text \<open>\<^verbatim>\<open>v[k]\<close> for a str \<open>k\<close>.\<close>

fun py_getitem :: "json \<Rightarrow> string \<Rightarrow> error + json" where
  "py_getitem (JObject kvs) k =
     (case map_of kvs k of None \<Rightarrow> Inl KeyError | Some v \<Rightarrow> Inr v)"
| "py_getitem _ k = Inl TypeError"

text \<open>\<^verbatim>\<open>v.get(k, d)\<close>\<close>

fun py_get :: "json \<Rightarrow> string \<Rightarrow> json \<Rightarrow> error + json" where
  "py_get (JObject kvs) k d =
     (case map_of kvs k of None \<Rightarrow> Inr d | Some v \<Rightarrow> Inr v)"
| "py_get _ k d = Inl AttributeError"

text \<open>\<^verbatim>\<open>s += v\<close> for a str \<open>s\<close>.\<close>

fun py_iadd_str :: "string \<Rightarrow> json \<Rightarrow> error + string" where
  "py_iadd_str s (JString t) = Inr (s @ t)"
| "py_iadd_str s _ = Inl TypeError"

subsection \<open>\<^verbatim>\<open>clear_ocr_output_folder\<close>\<close>

text \<open>
  The loop \<^verbatim>\<open>for blob in blobs: blob.delete()\<close> over the objects listed before it
  starts; an exception ends it, and what was deleted until then stays deleted.
\<close>

fun delete_all :: "string \<Rightarrow> blob list \<Rightarrow> world \<Rightarrow> (error + unit) \<times> world" where
  "delete_all bucket_name [] w = (Inr (), w)"
| "delete_all bucket_name (b # blobs) w =
     (case get_bucket (storage w) bucket_name of
        Inl e \<Rightarrow> (Inl e, w)
      | Inr bs \<Rightarrow>
          (case delete_blob bs b of
             Inl e \<Rightarrow> (Inl e, w)
           | Inr bs' \<Rightarrow>
               delete_all bucket_name blobs
                 (emit (Delete bucket_name (name b))
                    (w\<lparr>storage := (storage w)(bucket_name \<mapsto> bs')\<rparr>))))"

definition clear_ocr_output_folder ::
  "string \<Rightarrow> string \<Rightarrow> world \<Rightarrow> (error + unit) \<times> world" where
  "clear_ocr_output_folder bucket_name prefix w =
     (case get_bucket (storage w) bucket_name of
        Inl e \<Rightarrow> (Inl e, w)
      | Inr bucket \<Rightarrow>
          (let blobs = list_blobs bucket prefix
           in case delete_all bucket_name blobs w of
                (Inl e, w') \<Rightarrow> (Inl e, w')
              | (Inr u, w') \<Rightarrow>
                  (Inr (),
                   emit (Print (''All blobs with prefix '' @ [CHR 0x27] @ prefix @ [CHR 0x27]
                                @ '' have been deleted from bucket '' @ [CHR 0x27]
                                @ bucket_name @ [CHR 0x27] @ ''.'')) w')))"

subsection \<open>\<^verbatim>\<open>get_ocr_output_from_bucket\<close>\<close>

definition extract_page_number :: "blob \<Rightarrow> int" where
  "extract_page_number b =
     (case re_search_output (name b) of
        Some g \<Rightarrow> py_int g
      | None \<Rightarrow> - 1)"

text \<open>
  \<^verbatim>\<open>sorted(blobs, key=extract_page_number)\<close>. Python's sort is stable, and a list has only
  one stable arrangement in ascending order of a key; \<open>sort_key\<close> computes it.
\<close>

definition sorted_blobs :: "blob list \<Rightarrow> blob list" where
  "sorted_blobs blobs = sort_key extract_page_number blobs"

text \<open>The body of the inner loop: \<open>complete_text\<close> after one page response.\<close>

definition add_page_response :: "string \<Rightarrow> json \<Rightarrow> error + string" where
  "add_page_response complete_text page_response =
     (case py_contains ''fullTextAnnotation'' page_response of
        Inl e \<Rightarrow> Inl e
      | Inr False \<Rightarrow> Inr complete_text
      | Inr True \<Rightarrow>
          (case py_getitem page_response ''fullTextAnnotation'' of
             Inl e \<Rightarrow> Inl e
           | Inr annotation \<Rightarrow>
               (case py_get annotation ''text'' (JString []) of
                  Inl e \<Rightarrow> Inl e
                | Inr v \<Rightarrow> py_iadd_str complete_text v)))"

fun add_page_responses :: "string \<Rightarrow> json list \<Rightarrow> error + string" where
  "add_page_responses complete_text [] = Inr complete_text"
| "add_page_responses complete_text (page_response # rest) =
     (case add_page_response complete_text page_response of
        Inl e \<Rightarrow> Inl e
      | Inr complete_text' \<Rightarrow> add_page_responses complete_text' rest)"

text \<open>
  The body of the outer loop. \<open>json_loads\<close> is the parameter for
  \<^verbatim>\<open>json.loads(output.download_as_bytes().decode("utf-8"))\<close>, from the bytes of the object
  to the parsed value, or to the exception that the decoder or the parser raises.
\<close>

definition add_output ::
  "(string \<Rightarrow> error + json) \<Rightarrow> string \<Rightarrow> blob \<Rightarrow> error + string" where
  "add_output json_loads complete_text output =
     (if \<not> endswith (name output) ''/''
      then (case json_loads (content output) of
              Inl e \<Rightarrow> Inl e
            | Inr response \<Rightarrow>
                (case py_get response ''responses'' (JArray []) of
                   Inl e \<Rightarrow> Inl e
                 | Inr rs \<Rightarrow>
                     (case py_iter rs of
                        Inl e \<Rightarrow> Inl e
                      | Inr page_responses \<Rightarrow>
                          add_page_responses complete_text page_responses)))
      else Inr complete_text)"

fun add_outputs ::
  "(string \<Rightarrow> error + json) \<Rightarrow> string \<Rightarrow> blob list \<Rightarrow> error + string" where
  "add_outputs json_loads complete_text [] = Inr complete_text"
| "add_outputs json_loads complete_text (output # rest) =
     (case add_output json_loads complete_text output of
        Inl e \<Rightarrow> Inl e
      | Inr complete_text' \<Rightarrow> add_outputs json_loads complete_text' rest)"

definition get_ocr_output_from_bucket ::
  "(string \<Rightarrow> error + json) \<Rightarrow> string \<Rightarrow> string \<Rightarrow> store \<Rightarrow> error + string" where
  "get_ocr_output_from_bucket json_loads gcs_destination_uri bucket_name st =
     (case re_match_gs gcs_destination_uri of
        None \<Rightarrow> Inl AttributeError
      | Some (g1, prefix) \<Rightarrow>
          (case get_bucket st bucket_name of
             Inl e \<Rightarrow> Inl e
           | Inr bucket \<Rightarrow>
               (let blobs = list_blobs bucket prefix
                in add_outputs json_loads [] (sorted_blobs blobs))))"

subsection \<open>\<^verbatim>\<open>async_document_extract\<close>\<close>

text \<open>
  The OCR service, as this module sees it: \<open>submit\<close> is
  \<^verbatim>\<open>client.async_batch_annotate_files\<close>, which accepts the requests or raises;
  \<open>await\<close> is \<^verbatim>\<open>operation.result(timeout=timeout)\<close>, which returns or raises, and in the
  meantime the service has written to the object store.
\<close>

record vision_client =
  submit :: "async_annotate_file_request list \<Rightarrow> store \<Rightarrow> error option"
  await :: "async_annotate_file_request list \<Rightarrow> int \<Rightarrow> store \<Rightarrow> error option \<times> store"

text \<open>The request that the function builds from its arguments and the identifier.\<close>

definition async_request ::
  "string \<Rightarrow> string \<Rightarrow> string \<Rightarrow> string \<Rightarrow> async_annotate_file_request" where
  "async_request bucket source_name output_bucket prefix =
     (let gcs_source_uri = ''gs://'' @ bucket @ ''/'' @ source_name;
          gcs_destination_uri = ''gs://'' @ output_bucket @ ''/'' @ prefix @ ''/'';
          mime = ''application/pdf'';
          batch = 2
      in \<lparr>features = [DOCUMENT_TEXT_DETECTION],
          input_cfg = \<lparr>gcs_source = gcs_source_uri, mime_type = mime\<rparr>,
          output_cfg = \<lparr>gcs_destination = gcs_destination_uri, batch_size = batch\<rparr>\<rparr>)"

text \<open>
  \<open>unique_id\<close> is the parameter for \<^verbatim>\<open>uuid.uuid4().hex\<close>, the identifier drawn in this
  call. The timeout is \<open>None\<close> when the caller leaves the argument out.
\<close>

definition async_document_extract ::
  "vision_client \<Rightarrow> (string \<Rightarrow> error + json) \<Rightarrow> string \<Rightarrow>
   string \<Rightarrow> string \<Rightarrow> string \<Rightarrow> int option \<Rightarrow> world \<Rightarrow> (error + string) \<times> world" where
  "async_document_extract client json_loads unique_id bucket source_name output_bucket
     timeout_arg w =
     (let timeout = (case timeout_arg of None \<Rightarrow> 420 | Some t \<Rightarrow> t);
          prefix = ''ocr/'' @ unique_id
      in case clear_ocr_output_folder output_bucket prefix w of
           (Inl e, w1) \<Rightarrow> (Inl e, w1)
         | (Inr u, w1) \<Rightarrow>
             (let gcs_destination_uri = ''gs://'' @ output_bucket @ ''/'' @ prefix @ ''/'';
                  requests = [async_request bucket source_name output_bucket prefix];
                  w2 = emit (AsyncBatchAnnotateFiles requests) w1
              in case submit client requests (storage w2) of
                   Some e \<Rightarrow> (Inl e, w2)
                 | None \<Rightarrow>
                     (let w3 = emit (Print ''OCR: waiting for the operation to finish.'') w2;
                          w4 = emit (OperationResult timeout) w3;
                          (r, st') = await client requests timeout (storage w4);
                          w5 = w4\<lparr>storage := st'\<rparr>
                      in case r of
                           Some e \<Rightarrow> (Inl e, w5)
                         | None \<Rightarrow>
                             (get_ocr_output_from_bucket json_loads gcs_destination_uri
                                output_bucket (storage w5), w5))))"

subsection \<open>What one object contributes, and which events are requests\<close>

text \<open>The text that the outer loop appends for one object (nothing when its body raises).\<close>

definition output_text :: "(string \<Rightarrow> error + json) \<Rightarrow> blob \<Rightarrow> string" where
  "output_text json_loads b =
     (case add_output json_loads [] b of Inr t \<Rightarrow> t | Inl e \<Rightarrow> [])"

fun is_submission :: "event \<Rightarrow> bool" where
  "is_submission (AsyncBatchAnnotateFiles rs) = True"
| "is_submission _ = False"

subsection \<open>The output files as the specification describes them\<close>

text \<open>
  The specification's reading of an output file: a JSON object with an optional
  \<open>responses\<close> array of page responses, each an object with an optional
  \<open>fullTextAnnotation\<close> object, which has an optional \<open>text\<close> string. These definitions
  follow the specification, not the code; the code is compared with them below.
\<close>

definition wf_annotation :: "json \<Rightarrow> bool" where
  "wf_annotation a =
     (case a of
        JObject kvs \<Rightarrow>
          (case map_of kvs ''text'' of
             None \<Rightarrow> True
           | Some (JString t) \<Rightarrow> True
           | Some _ \<Rightarrow> False)
      | _ \<Rightarrow> False)"

definition wf_page_response :: "json \<Rightarrow> bool" where
  "wf_page_response p =
     (case p of
        JObject kvs \<Rightarrow>
          (case map_of kvs ''fullTextAnnotation'' of
             None \<Rightarrow> True
           | Some a \<Rightarrow> wf_annotation a)
      | _ \<Rightarrow> False)"

definition wf_output :: "json \<Rightarrow> bool" where
  "wf_output j =
     (case j of
        JObject kvs \<Rightarrow>
          (case map_of kvs ''responses'' of
             None \<Rightarrow> True
           | Some (JArray ps) \<Rightarrow> list_all wf_page_response ps
           | Some _ \<Rightarrow> False)
      | _ \<Rightarrow> False)"

text \<open>The text value of an annotation, the empty string when it has none.\<close>

definition annotation_text_spec :: "json \<Rightarrow> string" where
  "annotation_text_spec a =
     (case a of
        JObject kvs \<Rightarrow> (case map_of kvs ''text'' of Some (JString t) \<Rightarrow> t | _ \<Rightarrow> [])
      | _ \<Rightarrow> [])"

text \<open>The text of a page response: that of its annotation, nothing without one.\<close>

definition page_text_spec :: "json \<Rightarrow> string" where
  "page_text_spec p =
     (case p of
        JObject kvs \<Rightarrow>
          (case map_of kvs ''fullTextAnnotation'' of
             Some a \<Rightarrow> annotation_text_spec a
           | None \<Rightarrow> [])
      | _ \<Rightarrow> [])"

text \<open>The text of an output file: its page texts in array order, nothing without the array.\<close>

definition output_text_spec :: "json \<Rightarrow> string" where
  "output_text_spec j =
     (case j of
        JObject kvs \<Rightarrow>
          (case map_of kvs ''responses'' of
             Some (JArray ps) \<Rightarrow> concat (map page_text_spec ps)
           | _ \<Rightarrow> [])
      | _ \<Rightarrow> [])"

subsection \<open>The page range in a name, as the specification describes it\<close>

text \<open>
  The specification's reading of a name: it holds a substring \<^verbatim>\<open>output-<N>-to-<M>\<close>,
  where \<open>N\<close> and \<open>M\<close> are runs of at least one decimal digit, and the start page is the
  number that \<open>N\<close> denotes. These definitions follow the specification, not the code: the
  text begins with such a substring whose first number is written \<open>N\<close>; the text holds
  such a substring somewhere; \<open>N\<close> is the first number of the leftmost one; and the number
  that a run of digits denotes in base ten.
\<close>

definition page_range_here :: "string \<Rightarrow> string \<Rightarrow> bool" where
  "page_range_here N s =
     (\<exists>M post. s = ''output-'' @ N @ ''-to-'' @ M @ post
        \<and> N \<noteq> [] \<and> list_all is_digit N \<and> M \<noteq> [] \<and> list_all is_digit M)"

definition has_page_range :: "string \<Rightarrow> bool" where
  "has_page_range s = (\<exists>pre N rest. s = pre @ rest \<and> page_range_here N rest)"

definition first_page_range :: "string \<Rightarrow> string \<Rightarrow> bool" where
  "first_page_range N s =
     (\<exists>pre rest. s = pre @ rest \<and> page_range_here N rest
        \<and> (\<forall>pre' rest' N'. s = pre' @ rest' \<and> length pre' < length pre
              \<longrightarrow> \<not> page_range_here N' rest'))"

definition decimal :: "string \<Rightarrow> int" where
  "decimal ds = (\<Sum>i<length ds. digit_value (ds ! i) * 10 ^ (length ds - Suc i))"

subsection \<open>Example data\<close>

definition hello_json :: string where
  \<open>hello_json = ''{"responses":[{"fullTextAnnotation":{"text":"Hello "}}]}''\<close>

definition world_json :: string where
  \<open>world_json = ''{"responses":[{"fullTextAnnotation":{"text":"World"}}]}''\<close>

definition sparse_json :: string where
  \<open>sparse_json =
     ''{"responses":[{},{"fullTextAnnotation":{}},{"fullTextAnnotation":{"text":"!"}}]}''\<close>

definition hello_value :: json where
  "hello_value =
     JObject [(''responses'',
       JArray [JObject [(''fullTextAnnotation'', JObject [(''text'', JString ''Hello '')])]])]"

definition world_value :: json where
  "world_value =
     JObject [(''responses'',
       JArray [JObject [(''fullTextAnnotation'', JObject [(''text'', JString ''World'')])]])]"

definition sparse_value :: json where
  "sparse_value =
     JObject [(''responses'',
       JArray [JObject [],
               JObject [(''fullTextAnnotation'', JObject [])],
               JObject [(''fullTextAnnotation'', JObject [(''text'', JString ''!'')])]])]"

text \<open>A parser that knows the example texts, and refuses every other input.\<close>

definition example_loads :: "string \<Rightarrow> error + json" where
  "example_loads s =
     (if s = hello_json then Inr hello_value
      else if s = world_json then Inr world_value
      else if s = sparse_json then Inr sparse_value
      else if s = ''{}'' then Inr (JObject [])
      else Inl JSONDecodeError)"

definition example_parsed :: "blob \<Rightarrow> json" where
  "example_parsed b = (case example_loads (content b) of Inr j \<Rightarrow> j | Inl e \<Rightarrow> JNull)"

definition hello_blob :: blob where
  "hello_blob = \<lparr>name = ''ocr/x/output-1-to-2.json'', content = hello_json\<rparr>"

definition world_blob :: blob where
  "world_blob = \<lparr>name = ''ocr/x/output-3-to-4.json'', content = world_json\<rparr>"

definition sparse_blob :: blob where
  "sparse_blob = \<lparr>name = ''ocr/x/output-5-to-6.json'', content = sparse_json\<rparr>"

definition manifest_blob :: blob where
  "manifest_blob = \<lparr>name = ''ocr/x/manifest.json'', content = ''{}''\<rparr>"

definition notes_blob :: blob where
  "notes_blob = \<lparr>name = ''ocr/x/notes.json'', content = sparse_json\<rparr>"

definition folder_blob :: blob where
  "folder_blob = \<lparr>name = ''ocr/x/'', content = []\<rparr>"

definition other_blob :: blob where
  "other_blob = \<lparr>name = ''ocr/y/output-1-to-2.json'', content = hello_json\<rparr>"

definition sparse_bucket :: bucket where
  "sparse_bucket = [sparse_blob, folder_blob, hello_blob, manifest_blob]"

definition example_id :: string where
  "example_id = ''0123456789abcdef0123456789abcdef''"

definition stale_blob :: blob where
  "stale_blob = \<lparr>name = ''ocr/'' @ example_id @ ''/output-9-to-9.json'', content = sparse_json\<rparr>"

definition example_bucket :: bucket where
  "example_bucket =
     [world_blob, folder_blob, other_blob, stale_blob, manifest_blob, hello_blob]"

definition two_files_bucket :: bucket where
  "two_files_bucket = [other_blob, world_blob, hello_blob]"

definition example_store :: store where
  "example_store = [''out'' \<mapsto> example_bucket]"

definition example_world :: world where
  "example_world = \<lparr>storage = example_store, trace = []\<rparr>"

definition empty_world :: world where
  "empty_world = \<lparr>storage = Map.empty, trace = []\<rparr>"

text \<open>
  An OCR service that accepts every request and, unless the timeout is below one second,
  writes two output files under the destination of the request.
\<close>

definition example_await ::
  "async_annotate_file_request list \<Rightarrow> int \<Rightarrow> store \<Rightarrow> error option \<times> store" where
  "example_await rs t st =
     (if t < 1 then (Some TimeoutError, st)
      else (case rs of
              [r] \<Rightarrow>
                (let dir = drop (length ''gs://out/'') (gcs_destination (output_cfg r));
                     old = (case st ''out'' of None \<Rightarrow> [] | Some bs \<Rightarrow> bs)
                 in (None,
                     st(''out'' \<mapsto> old @
                        [\<lparr>name = dir @ ''output-3-to-4.json'', content = world_json\<rparr>,
                         \<lparr>name = dir @ ''output-1-to-2.json'', content = hello_json\<rparr>])))
            | _ \<Rightarrow> (Some GoogleAPICallError, st)))"

definition example_client :: vision_client where
  "example_client = \<lparr>submit = (\<lambda>rs st. None), await = example_await\<rparr>"

definition example_request :: async_annotate_file_request where
  "example_request =
     \<lparr>features = [DOCUMENT_TEXT_DETECTION],
      input_cfg = \<lparr>gcs_source = ''gs://src/doc.pdf'', mime_type = ''application/pdf''\<rparr>,
      output_cfg = \<lparr>gcs_destination = ''gs://out/ocr/0123456789abcdef0123456789abcdef/'',
                    batch_size = 2\<rparr>\<rparr>"


section \<open>Properties\<close>

subsection \<open>Page numbers\<close>

lemma digit_value_nonneg: "is_digit c \<Longrightarrow> 0 \<le> digit_value c"
  by (auto simp: is_digit_def digit_value_def)

lemma foldl_digits_nonneg:
  "0 \<le> a \<Longrightarrow> \<forall>c\<in>set ds. is_digit c \<Longrightarrow> 0 \<le> foldl (\<lambda>a c. 10 * a + digit_value c) a ds"
proof (induction ds arbitrary: a)
  case Nil
  then show ?case by simp
next
  case (Cons d ds)
  have "0 \<le> 10 * a + digit_value d"
    using Cons.prems digit_value_nonneg [of d] by simp
  then show ?case using Cons by simp
qed

lemma py_int_nonneg: "\<forall>c\<in>set ds. is_digit c \<Longrightarrow> 0 \<le> py_int ds"
  unfolding py_int_def by (rule foldl_digits_nonneg) simp_all

lemma match_output_here_digits:
  "match_output_here s = Some g \<Longrightarrow> g \<noteq> [] \<and> (\<forall>c\<in>set g. is_digit c)"
  by (auto simp: match_output_here_def Let_def split: option.splits if_splits list.splits
           dest: set_takeWhileD)

lemma re_search_output_digits:
  "re_search_output s = Some g \<Longrightarrow> g \<noteq> [] \<and> (\<forall>c\<in>set g. is_digit c)"
proof (induction s)
  case Nil
  then show ?case using match_output_here_digits [of "[]" g] by simp
next
  case (Cons c cs)
  then show ?case
    using match_output_here_digits [of "c # cs" g] by (simp split: option.splits)
qed

lemma extract_page_number_unparseable:
  "re_search_output (name b) = None \<Longrightarrow> extract_page_number b = - 1"
  by (simp add: extract_page_number_def)

lemma extract_page_number_parseable:
  "re_search_output (name b) \<noteq> None \<Longrightarrow> 0 \<le> extract_page_number b"
  using re_search_output_digits [of "name b"] py_int_nonneg
  by (auto simp: extract_page_number_def split: option.splits)

lemma extract_page_number_minus1_iff:
  "extract_page_number b = - 1 \<longleftrightarrow> re_search_output (name b) = None"
  using extract_page_number_parseable [of b] extract_page_number_unparseable [of b]
  by (cases "re_search_output (name b) = None") auto

subsection \<open>Literals\<close>

lemma after_literal_append: "after_literal p (p @ r) = Some r"
  by (simp add: after_literal_def startswith_def)

lemma after_literal_Some: "after_literal p s = Some r \<Longrightarrow> s = p @ r"
proof -
  assume a: "after_literal p s = Some r"
  then have "take (length p) s = p" and "r = drop (length p) s"
    by (auto simp: after_literal_def startswith_def split: if_splits)
  then show "s = p @ r" using append_take_drop_id [of "length p" s] by simp
qed

subsection \<open>The search agrees with the specification of the page range\<close>

lemma not_digit_minus: "\<not> is_digit CHR ''-''"
  by (simp add: is_digit_def)

lemma page_range_here_match:
  assumes "page_range_here N s"
  shows "match_output_here s = Some N"
proof -
  from assms obtain M post where s: "s = ''output-'' @ N @ ''-to-'' @ M @ post"
    and N: "N \<noteq> []" "list_all is_digit N" and M: "M \<noteq> []" "list_all is_digit M"
    unfolding page_range_here_def by blast
  have dN: "\<forall>c\<in>set N. is_digit c" using N(2) by (simp add: list_all_iff)
  have a: "after_literal ''output-'' s = Some (N @ ''-to-'' @ M @ post)"
    unfolding s by (rule after_literal_append)
  have tw: "takeWhile is_digit (N @ ''-to-'' @ M @ post) = N"
    using dN not_digit_minus by (simp add: takeWhile_append2)
  have dw: "dropWhile is_digit (N @ ''-to-'' @ M @ post) = ''-to-'' @ M @ post"
    using dN not_digit_minus by (simp add: dropWhile_append2)
  have b: "after_literal ''-to-'' (''-to-'' @ M @ post) = Some (M @ post)"
    by (rule after_literal_append)
  obtain c M' where Mc: "M = c # M'" using M(1) by (cases M) auto
  then have c: "is_digit c" using M(2) by simp
  show ?thesis
    unfolding match_output_here_def a option.case Let_def tw dw b
    using N(1) c by (simp add: Mc)
qed

lemma match_page_range_here:
  assumes "match_output_here s = Some N"
  shows "page_range_here N s"
proof -
  from assms obtain r where r: "after_literal ''output-'' s = Some r"
    by (auto simp: match_output_here_def split: option.splits)
  let ?r1 = "dropWhile is_digit r"
  from assms r obtain r2 c rest where r2: "after_literal ''-to-'' ?r1 = Some r2"
    and N: "N = takeWhile is_digit r" and Nne: "N \<noteq> []"
    and c: "r2 = c # rest" and dc: "is_digit c"
    by (auto simp: match_output_here_def Let_def split: option.splits if_splits list.splits)
  have "s = ''output-'' @ r" using r by (rule after_literal_Some)
  moreover have "r = N @ ?r1" unfolding N by simp
  moreover have "?r1 = ''-to-'' @ r2" using r2 by (rule after_literal_Some)
  ultimately have "s = ''output-'' @ N @ ''-to-'' @ [c] @ rest" using c by simp
  moreover have "list_all is_digit N"
    unfolding N list_all_iff using set_takeWhileD by fastforce
  ultimately show ?thesis
    unfolding page_range_here_def using Nne dc
    by (intro exI [of _ "[c]"] exI [of _ rest]) simp
qed

lemma match_output_here_iff: "(match_output_here s = Some N) = page_range_here N s"
  using page_range_here_match match_page_range_here by blast

lemma match_output_here_None_iff: "(match_output_here s = None) = (\<forall>N. \<not> page_range_here N s)"
  using match_output_here_iff [of s] by (cases "match_output_here s") auto

lemma has_page_range_Nil: "\<not> has_page_range []"
  by (simp add: has_page_range_def page_range_here_def)

lemma has_page_range_Cons:
  "has_page_range (c # cs) = ((\<exists>N. page_range_here N (c # cs)) \<or> has_page_range cs)"
proof
  assume "has_page_range (c # cs)"
  then obtain pre N rest where e: "c # cs = pre @ rest" and p: "page_range_here N rest"
    unfolding has_page_range_def by blast
  show "(\<exists>N. page_range_here N (c # cs)) \<or> has_page_range cs"
  proof (cases pre)
    case Nil
    then show ?thesis using e p by auto
  next
    case (Cons a pre')
    then have "cs = pre' @ rest" using e by simp
    then show ?thesis using p unfolding has_page_range_def by blast
  qed
next
  assume "(\<exists>N. page_range_here N (c # cs)) \<or> has_page_range cs"
  then show "has_page_range (c # cs)"
  proof
    assume "\<exists>N. page_range_here N (c # cs)"
    then obtain N where "page_range_here N (c # cs)" ..
    then have "c # cs = [] @ (c # cs) \<and> page_range_here N (c # cs)" by simp
    then show ?thesis unfolding has_page_range_def by blast
  next
    assume "has_page_range cs"
    then obtain pre N rest where "cs = pre @ rest" and "page_range_here N rest"
      unfolding has_page_range_def by blast
    then have "c # cs = (c # pre) @ rest \<and> page_range_here N rest" by simp
    then show ?thesis unfolding has_page_range_def by blast
  qed
qed

lemma re_search_output_None_iff: "(re_search_output s = None) = (\<not> has_page_range s)"
proof (induction s)
  case Nil
  show ?case
    using match_output_here_None_iff [of "[]"] has_page_range_Nil
    by (simp add: page_range_here_def)
next
  case (Cons c cs)
  show ?case
  proof (cases "match_output_here (c # cs)")
    case None
    then have "\<forall>N. \<not> page_range_here N (c # cs)"
      by (simp add: match_output_here_None_iff)
    then show ?thesis using None Cons.IH by (simp add: has_page_range_Cons)
  next
    case (Some g)
    then have "page_range_here g (c # cs)" by (simp add: match_output_here_iff)
    then show ?thesis using Some by (auto simp: has_page_range_Cons)
  qed
qed

lemma first_page_range_here:
  assumes "page_range_here g s"
  shows "first_page_range N s = (N = g)"
proof
  assume "first_page_range N s"
  then obtain pre rest where e: "s = pre @ rest" and p: "page_range_here N rest"
    and least: "\<forall>pre' rest' N'. s = pre' @ rest' \<and> length pre' < length pre
              \<longrightarrow> \<not> page_range_here N' rest'"
    unfolding first_page_range_def by blast
  have "pre = []"
  proof (rule ccontr)
    assume "pre \<noteq> []"
    then have "s = [] @ s \<and> length ([] :: string) < length pre" by simp
    then have "\<not> page_range_here g s" using least by blast
    then show False using assms by simp
  qed
  then have "page_range_here N s" using e p by simp
  then have "match_output_here s = Some N" by (rule page_range_here_match)
  moreover have "match_output_here s = Some g" using assms by (rule page_range_here_match)
  ultimately show "N = g" by simp
next
  assume "N = g"
  then have "s = [] @ s \<and> page_range_here N s
        \<and> (\<forall>pre' rest' N'. s = pre' @ rest' \<and> length pre' < length ([] :: string)
              \<longrightarrow> \<not> page_range_here N' rest')"
    using assms by simp
  then show "first_page_range N s" unfolding first_page_range_def by blast
qed

lemma first_page_range_later:
  assumes "\<forall>N. \<not> page_range_here N (c # cs)"
  shows "first_page_range N (c # cs) = first_page_range N cs"
proof
  assume "first_page_range N (c # cs)"
  then obtain pre rest where e: "c # cs = pre @ rest" and p: "page_range_here N rest"
    and least: "\<forall>pre' rest' N'. c # cs = pre' @ rest' \<and> length pre' < length pre
              \<longrightarrow> \<not> page_range_here N' rest'"
    unfolding first_page_range_def by blast
  have "pre \<noteq> []" using e p assms by auto
  then obtain pre0 where pre: "pre = c # pre0" and cs: "cs = pre0 @ rest"
    using e by (cases pre) auto
  have "\<forall>pre' rest' N'. cs = pre' @ rest' \<and> length pre' < length pre0
              \<longrightarrow> \<not> page_range_here N' rest'"
  proof (intro allI impI)
    fix pre' rest' N' assume a: "cs = pre' @ rest' \<and> length pre' < length pre0"
    then have "c # cs = (c # pre') @ rest' \<and> length (c # pre') < length pre"
      using pre by simp
    then show "\<not> page_range_here N' rest'" using least by blast
  qed
  then show "first_page_range N cs" unfolding first_page_range_def using cs p by blast
next
  assume "first_page_range N cs"
  then obtain pre rest where e: "cs = pre @ rest" and p: "page_range_here N rest"
    and least: "\<forall>pre' rest' N'. cs = pre' @ rest' \<and> length pre' < length pre
              \<longrightarrow> \<not> page_range_here N' rest'"
    unfolding first_page_range_def by blast
  have "\<forall>pre' rest' N'. c # cs = pre' @ rest' \<and> length pre' < length (c # pre)
              \<longrightarrow> \<not> page_range_here N' rest'"
  proof (intro allI impI)
    fix pre' rest' N' assume a: "c # cs = pre' @ rest' \<and> length pre' < length (c # pre)"
    show "\<not> page_range_here N' rest'"
    proof (cases pre')
      case Nil
      then have "rest' = c # cs" using a by simp
      then show ?thesis using assms by simp
    next
      case (Cons x pre'')
      then have "cs = pre'' @ rest' \<and> length pre'' < length pre" using a by simp
      then show ?thesis using least by blast
    qed
  qed
  moreover have "c # cs = (c # pre) @ rest" using e by simp
  ultimately show "first_page_range N (c # cs)"
    unfolding first_page_range_def using p by blast
qed

lemma first_page_range_Nil: "\<not> first_page_range N []"
  by (simp add: first_page_range_def page_range_here_def)

lemma re_search_output_Some_iff: "(re_search_output s = Some N) = first_page_range N s"
proof (induction s)
  case Nil
  have "match_output_here [] = None"
    by (simp add: match_output_here_None_iff page_range_here_def)
  then show ?case by (simp add: first_page_range_Nil)
next
  case (Cons c cs)
  show ?case
  proof (cases "match_output_here (c # cs)")
    case None
    then have "\<forall>N. \<not> page_range_here N (c # cs)"
      by (simp add: match_output_here_None_iff)
    then have "first_page_range N (c # cs) = first_page_range N cs"
      by (rule first_page_range_later)
    then show ?thesis using None Cons.IH by simp
  next
    case (Some g)
    then have "page_range_here g (c # cs)" by (simp add: match_output_here_iff)
    then have "first_page_range N (c # cs) = (N = g)" by (rule first_page_range_here)
    then show ?thesis using Some by auto
  qed
qed

lemma decimal_Nil: "decimal [] = 0"
  by (simp add: decimal_def)

lemma decimal_snoc: "decimal (ds @ [d]) = 10 * decimal ds + digit_value d"
proof -
  have "(\<Sum>i<length ds. digit_value ((ds @ [d]) ! i) * 10 ^ (length (ds @ [d]) - Suc i))
      = (\<Sum>i<length ds. 10 * (digit_value (ds ! i) * 10 ^ (length ds - Suc i)))"
  proof (rule sum.cong)
    fix i assume "i \<in> {..<length ds}"
    then have i: "i < length ds" by simp
    then have "length (ds @ [d]) - Suc i = Suc (length ds - Suc i)" by simp
    then show "digit_value ((ds @ [d]) ! i) * 10 ^ (length (ds @ [d]) - Suc i)
             = 10 * (digit_value (ds ! i) * 10 ^ (length ds - Suc i))"
      using i by (simp add: nth_append)
  qed simp
  then show ?thesis
    by (simp add: decimal_def sum_distrib_left)
qed

lemma foldl_decimal:
  "foldl (\<lambda>a c. 10 * a + digit_value c) a ds = a * 10 ^ length ds + decimal ds"
proof (induction ds rule: rev_induct)
  case Nil
  then show ?case by (simp add: decimal_Nil)
next
  case (snoc d ds)
  then show ?case by (simp add: decimal_snoc algebra_simps)
qed

lemma py_int_decimal: "py_int ds = decimal ds"
  by (simp add: py_int_def foldl_decimal)

lemma digit_values: "map digit_value ''0123456789'' = [0, 1, 2, 3, 4, 5, 6, 7, 8, 9]"
  by (simp add: digit_value_def)

subsection \<open>Sorting\<close>

lemma insort_key_after_smaller:
  "\<forall>y\<in>set ys. f y < f a \<Longrightarrow> insort_key f a (ys @ zs) = ys @ insort_key f a zs"
  by (induction ys) auto

lemma sort_key_split_least:
  "\<forall>x\<in>set xs. k \<le> f x \<Longrightarrow>
   sort_key f xs = filter (\<lambda>x. f x = k) xs @ sort_key f (filter (\<lambda>x. f x \<noteq> k) xs)"
proof (induction xs)
  case Nil
  then show ?case by simp
next
  case (Cons a xs)
  have le: "\<forall>x\<in>set xs. k \<le> f x" and ka: "k \<le> f a"
    using Cons.prems by simp_all
  have IH: "sort_key f xs = filter (\<lambda>x. f x = k) xs @ sort_key f (filter (\<lambda>x. f x \<noteq> k) xs)"
    using Cons.IH le by blast
  show ?case
  proof (cases "f a = k")
    case True
    have "\<forall>x\<in>set (sort_key f xs). f a \<le> f x" using le True by simp
    then have "insort_key f a (sort_key f xs) = a # sort_key f xs"
      by (rule insort_is_Cons)
    then show ?thesis using True IH by simp
  next
    case False
    have "\<forall>y\<in>set (filter (\<lambda>x. f x = k) xs). f y < f a"
      using ka False by auto
    then have "insort_key f a (filter (\<lambda>x. f x = k) xs @ sort_key f (filter (\<lambda>x. f x \<noteq> k) xs))
             = filter (\<lambda>x. f x = k) xs @ insort_key f a (sort_key f (filter (\<lambda>x. f x \<noteq> k) xs))"
      by (rule insort_key_after_smaller)
    then show ?thesis using False IH by simp
  qed
qed

lemma sorted_blobs_unparseable_first:
  "sorted_blobs blobs =
     filter (\<lambda>b. re_search_output (name b) = None) blobs
     @ sorted_blobs (filter (\<lambda>b. re_search_output (name b) \<noteq> None) blobs)"
proof -
  have "\<forall>b\<in>set blobs. - 1 \<le> extract_page_number b"
  proof
    fix b
    show "- 1 \<le> extract_page_number b"
      using extract_page_number_parseable [of b] extract_page_number_unparseable [of b]
      by (cases "re_search_output (name b) = None") auto
  qed
  then have "sort_key extract_page_number blobs =
      filter (\<lambda>b. extract_page_number b = - 1) blobs
      @ sort_key extract_page_number (filter (\<lambda>b. extract_page_number b \<noteq> - 1) blobs)"
    by (rule sort_key_split_least)
  then show ?thesis
    by (simp add: sorted_blobs_def extract_page_number_minus1_iff)
qed

subsection \<open>The accumulated text\<close>

lemma py_iadd_str_acc:
  "py_iadd_str acc v = (case py_iadd_str [] v of Inl e \<Rightarrow> Inl e | Inr t \<Rightarrow> Inr (acc @ t))"
  by (cases v) simp_all

lemma add_page_response_acc:
  "add_page_response acc p =
     (case add_page_response [] p of Inl e \<Rightarrow> Inl e | Inr t \<Rightarrow> Inr (acc @ t))"
  unfolding add_page_response_def
  by (simp add: py_iadd_str_acc [of acc] split: sum.splits bool.splits)

lemma add_page_responses_acc:
  "add_page_responses acc ps =
     (case add_page_responses [] ps of Inl e \<Rightarrow> Inl e | Inr t \<Rightarrow> Inr (acc @ t))"
proof (induction ps arbitrary: acc)
  case Nil
  then show ?case by simp
next
  case (Cons p ps)
  show ?case
  proof (cases "add_page_response [] p")
    case (Inl e)
    then show ?thesis by (simp add: add_page_response_acc [of acc])
  next
    case (Inr t)
    then have "add_page_response acc p = Inr (acc @ t)"
      by (simp add: add_page_response_acc [of acc])
    then show ?thesis
      using Inr Cons.IH [of "acc @ t"] Cons.IH [of t]
      by (simp split: sum.splits)
  qed
qed

lemma add_output_acc:
  "add_output jl acc b =
     (case add_output jl [] b of Inl e \<Rightarrow> Inl e | Inr t \<Rightarrow> Inr (acc @ t))"
  unfolding add_output_def
  by (simp add: add_page_responses_acc [of acc] split: sum.splits)

lemma get_ocr_output_from_bucket_listing:
  "re_match_gs uri = Some (uri_bucket, prefix) \<Longrightarrow> get_bucket st bucket_name = Inr bucket \<Longrightarrow>
   get_ocr_output_from_bucket json_loads uri bucket_name st =
     add_outputs json_loads [] (sorted_blobs (list_blobs bucket prefix))"
  by (simp add: get_ocr_output_from_bucket_def)

lemma add_output_text:
  "add_output jl acc b = Inr r \<Longrightarrow> r = acc @ output_text jl b"
  by (subst (asm) add_output_acc) (simp add: output_text_def split: sum.splits)

lemma add_outputs_concat:
  "add_outputs jl acc bs = Inr r \<Longrightarrow> r = acc @ concat (map (output_text jl) bs)"
proof (induction bs arbitrary: acc)
  case Nil
  then show ?case by simp
next
  case (Cons b bs)
  from Cons.prems obtain t where t: "add_output jl acc b = Inr t"
    and rest: "add_outputs jl t bs = Inr r"
    by (auto split: sum.splits)
  have "t = acc @ output_text jl b" using t by (rule add_output_text)
  moreover have "r = t @ concat (map (output_text jl) bs)" using rest by (rule Cons.IH)
  ultimately show ?case by simp
qed

subsection \<open>Output files of the expected shape, folder markers\<close>

lemma key_in_dict: "(k \<in> fst ` set kvs) = (map_of kvs k \<noteq> None)"
  by (simp add: map_of_eq_None_iff)

lemma add_annotation_wf:
  "wf_annotation a \<Longrightarrow>
   (case py_get a ''text'' (JString []) of Inl e \<Rightarrow> Inl e | Inr v \<Rightarrow> py_iadd_str acc v)
     = Inr (acc @ annotation_text_spec a)"
  by (auto simp: wf_annotation_def annotation_text_spec_def split: json.splits option.splits)

lemma add_page_response_wf:
  assumes "wf_page_response p"
  shows "add_page_response acc p = Inr (acc @ page_text_spec p)"
proof -
  from assms obtain kvs where p: "p = JObject kvs"
    by (auto simp: wf_page_response_def split: json.splits)
  show ?thesis
  proof (cases "map_of kvs ''fullTextAnnotation''")
    case None
    then show ?thesis
      by (simp add: p add_page_response_def page_text_spec_def key_in_dict)
  next
    case (Some a)
    then have "wf_annotation a" using assms by (simp add: p wf_page_response_def)
    then show ?thesis
      using Some add_annotation_wf [of a acc]
      by (simp add: p add_page_response_def page_text_spec_def key_in_dict)
  qed
qed

lemma add_page_responses_wf:
  "list_all wf_page_response ps \<Longrightarrow>
   add_page_responses acc ps = Inr (acc @ concat (map page_text_spec ps))"
  by (induction ps arbitrary: acc) (simp_all add: add_page_response_wf)

lemma add_output_wf:
  assumes "\<not> endswith (name b) ''/''" and "jl (content b) = Inr j" and "wf_output j"
  shows "add_output jl acc b = Inr (acc @ output_text_spec j)"
proof -
  from assms(3) obtain kvs where j: "j = JObject kvs"
    by (auto simp: wf_output_def split: json.splits)
  show ?thesis
  proof (cases "map_of kvs ''responses''")
    case None
    then show ?thesis
      using assms(1,2) by (simp add: j add_output_def output_text_spec_def)
  next
    case (Some rs)
    then obtain ps where rs: "rs = JArray ps" and wf: "list_all wf_page_response ps"
      using assms(3) by (auto simp: j wf_output_def split: json.splits)
    show ?thesis
      using assms(1,2) Some rs add_page_responses_wf [OF wf, of acc]
      by (simp add: j add_output_def output_text_spec_def)
  qed
qed

lemma add_output_folder:
  "endswith (name b) ''/'' \<Longrightarrow> add_output jl acc b = Inr acc"
  by (simp add: add_output_def)

lemma add_outputs_wf:
  "\<forall>b\<in>set bs. \<not> endswith (name b) ''/'' \<longrightarrow> jl (content b) = Inr (parsed b) \<and> wf_output (parsed b) \<Longrightarrow>
   add_outputs jl acc bs =
     Inr (acc @ concat (map (\<lambda>b. output_text_spec (parsed b))
                          (filter (\<lambda>b. \<not> endswith (name b) ''/'') bs)))"
proof (induction bs arbitrary: acc)
  case Nil
  then show ?case by simp
next
  case (Cons b bs)
  show ?case
  proof (cases "endswith (name b) ''/''")
    case True
    then show ?thesis using Cons by (simp add: add_output_folder)
  next
    case False
    then have "add_output jl acc b = Inr (acc @ output_text_spec (parsed b))"
      using Cons.prems by (simp add: add_output_wf)
    then show ?thesis using False Cons by simp
  qed
qed

lemma add_outputs_filter_folders:
  "add_outputs jl acc (filter (\<lambda>b. \<not> endswith (name b) ''/'') bs) = add_outputs jl acc bs"
  by (induction bs arbitrary: acc) (simp_all add: add_output_folder split: sum.splits)

lemma insort_key_map_same_key:
  "(\<And>x. f (g x) = f x) \<Longrightarrow> insort_key f (g a) (map g xs) = map g (insort_key f a xs)"
  by (induction xs) simp_all

lemma sort_key_map_same_key:
  "(\<And>x. f (g x) = f x) \<Longrightarrow> sort_key f (map g xs) = map g (sort_key f xs)"
  by (induction xs) (simp_all add: insort_key_map_same_key)

lemma add_outputs_map_same:
  "(\<And>b acc. add_output jl acc (g b) = add_output jl acc b) \<Longrightarrow>
   add_outputs jl acc (map g bs) = add_outputs jl acc bs"
  by (induction bs arbitrary: acc) (simp_all split: sum.splits)

subsection \<open>Cleanup\<close>

lemma delete_all_ok:
  "storage w bucket_name = Some cur \<Longrightarrow> distinct (map name blobs) \<Longrightarrow>
   name ` set blobs \<subseteq> name ` set cur \<Longrightarrow>
   delete_all bucket_name blobs w =
     (Inr (),
      \<lparr>storage = (storage w)(bucket_name \<mapsto>
                    filter (\<lambda>x. name x \<notin> name ` set blobs) cur),
       trace = trace w @ map (\<lambda>b. Delete bucket_name (name b)) blobs\<rparr>)"
proof (induction blobs arbitrary: w cur)
  case Nil
  have "(storage w)(bucket_name \<mapsto> cur) = storage w"
    using Nil.prems(1) by (rule map_upd_triv)
  then show ?case by simp
next
  case (Cons b blobs)
  let ?cur' = "filter (\<lambda>x. name x \<noteq> name b) cur"
  let ?w' = "emit (Delete bucket_name (name b)) (w\<lparr>storage := (storage w)(bucket_name \<mapsto> ?cur')\<rparr>)"
  have present: "name b \<in> name ` set cur" using Cons.prems(3) by simp
  have step: "delete_all bucket_name (b # blobs) w = delete_all bucket_name blobs ?w'"
    using Cons.prems(1) present by (simp add: get_bucket_def delete_blob_def)
  have st': "storage ?w' bucket_name = Some ?cur'" by (simp add: emit_def)
  have d': "distinct (map name blobs)" using Cons.prems(2) by simp
  have sub': "name ` set blobs \<subseteq> name ` set ?cur'"
  proof
    fix n assume n: "n \<in> name ` set blobs"
    have "name b \<notin> name ` set blobs" using Cons.prems(2) by simp
    with n have "n \<noteq> name b" by blast
    moreover have "n \<in> name ` set cur" using n Cons.prems(3) by auto
    ultimately show "n \<in> name ` set ?cur'" by auto
  qed
  have IH: "delete_all bucket_name blobs ?w' =
     (Inr (),
      \<lparr>storage = (storage ?w')(bucket_name \<mapsto>
                    filter (\<lambda>x. name x \<notin> name ` set blobs) ?cur'),
       trace = trace ?w' @ map (\<lambda>b. Delete bucket_name (name b)) blobs\<rparr>)"
    using st' d' sub' by (rule Cons.IH)
  have filt: "filter (\<lambda>x. name x \<notin> name ` set blobs) ?cur'
               = filter (\<lambda>x. name x \<notin> name ` set (b # blobs)) cur"
    by (auto intro: filter_cong)
  have upd: "(storage ?w')(bucket_name \<mapsto> bs) = (storage w)(bucket_name \<mapsto> bs)" for bs
    by (simp add: emit_def)
  have tr: "trace ?w' @ map (\<lambda>b. Delete bucket_name (name b)) blobs
          = trace w @ map (\<lambda>b. Delete bucket_name (name b)) (b # blobs)"
    by (simp add: emit_def)
  show ?case by (simp only: step IH filt upd tr)
qed

lemma clear_ocr_output_folder_ok:
  assumes "storage w bucket_name = Some bucket" and "wf_bucket bucket"
  shows "clear_ocr_output_folder bucket_name prefix w =
     (Inr (),
      \<lparr>storage = (storage w)(bucket_name \<mapsto>
                    filter (\<lambda>b. \<not> startswith (name b) prefix) bucket),
       trace = trace w @ map (\<lambda>b. Delete bucket_name (name b)) (list_blobs bucket prefix)
               @ [Print (''All blobs with prefix '' @ [CHR 0x27] @ prefix @ [CHR 0x27]
                                @ '' have been deleted from bucket '' @ [CHR 0x27]
                                @ bucket_name @ [CHR 0x27] @ ''.'')]\<rparr>)"
proof -
  have d: "distinct (map name (list_blobs bucket prefix))"
    using assms(2) by (simp add: wf_bucket_def list_blobs_def distinct_map_filter)
  have sub: "name ` set (list_blobs bucket prefix) \<subseteq> name ` set bucket"
    by (auto simp: list_blobs_def)
  have eq: "filter (\<lambda>x. name x \<notin> name ` set (list_blobs bucket prefix)) bucket
          = filter (\<lambda>b. \<not> startswith (name b) prefix) bucket"
    by (rule filter_cong) (auto simp: list_blobs_def)
  show ?thesis
    using assms(1) delete_all_ok [OF assms(1) d sub] eq
    by (simp add: clear_ocr_output_folder_def get_bucket_def emit_def)
qed

subsection \<open>The destination URI\<close>

lemma re_match_gs_of_form:
  assumes "b \<noteq> []" and "CHR ''/'' \<notin> set b"
  shows "re_match_gs (''gs://'' @ b @ ''/'' @ p) =
           (if takeWhile (\<lambda>c. c \<noteq> CHR 0x0A) p = [] then None
            else Some (b, takeWhile (\<lambda>c. c \<noteq> CHR 0x0A) p))"
proof -
  have nb: "\<forall>c\<in>set b. c \<noteq> CHR ''/''" using assms(2) by auto
  have tw: "takeWhile (\<lambda>c. c \<noteq> CHR ''/'') (b @ ''/'' @ p) = b"
    using nb by (simp add: takeWhile_append2)
  have dw: "dropWhile (\<lambda>c. c \<noteq> CHR ''/'') (b @ ''/'' @ p) = ''/'' @ p"
    using nb by (simp add: dropWhile_append2)
  show ?thesis
    unfolding re_match_gs_def after_literal_append Let_def option.case tw dw
    using assms(1) by simp
qed

lemma re_match_gs_Some:
  assumes "re_match_gs uri = Some (b, q)"
  shows "\<exists>p. uri = ''gs://'' @ b @ ''/'' @ p \<and> b \<noteq> [] \<and> CHR ''/'' \<notin> set b
             \<and> q = takeWhile (\<lambda>c. c \<noteq> CHR 0x0A) p \<and> q \<noteq> []"
proof -
  from assms obtain r where r: "after_literal ''gs://'' uri = Some r"
    by (auto simp: re_match_gs_def split: option.splits)
  let ?g1 = "takeWhile (\<lambda>c. c \<noteq> CHR ''/'') r"
  let ?r1 = "dropWhile (\<lambda>c. c \<noteq> CHR ''/'') r"
  from assms r obtain r2 where r2: "after_literal ''/'' ?r1 = Some r2"
    and g1: "?g1 \<noteq> []" and b: "b = ?g1"
    and q: "q = takeWhile (\<lambda>c. c \<noteq> CHR 0x0A) r2" and qne: "q \<noteq> []"
    by (auto simp: re_match_gs_def Let_def split: option.splits if_splits)
  have "uri = ''gs://'' @ r" using r by (rule after_literal_Some)
  moreover have "r = ?g1 @ ?r1" by simp
  moreover have "?r1 = ''/'' @ r2" using r2 by (rule after_literal_Some)
  ultimately have "uri = ''gs://'' @ b @ ''/'' @ r2" using b by simp
  moreover have "CHR ''/'' \<notin> set b"
    unfolding b using set_takeWhileD by fastforce
  ultimately show ?thesis using g1 b q qne by blast
qed

lemma takeWhile_ne_Nil: "p \<noteq> [] \<Longrightarrow> P (hd p) \<Longrightarrow> takeWhile P p \<noteq> []"
  by (cases p) simp_all

lemma takeWhile_Nil_hd: "takeWhile P p \<noteq> [] \<Longrightarrow> p \<noteq> [] \<and> P (hd p)"
  by (cases p) (simp_all split: if_splits)

subsection \<open>Traces\<close>

lemma delete_all_trace:
  "\<exists>evs. trace (snd (delete_all bucket_name blobs w)) = trace w @ evs
         \<and> (\<forall>e\<in>set evs. \<not> is_submission e)"
proof (induction blobs arbitrary: w)
  case Nil
  then show ?case by simp
next
  case (Cons b blobs)
  show ?case
  proof (cases "get_bucket (storage w) bucket_name")
    case (Inl e)
    then show ?thesis by simp
  next
    case (Inr bs)
    show ?thesis
    proof (cases "delete_blob bs b")
      case (Inl e)
      then show ?thesis using Inr by simp
    next
      case bs': (Inr bs')
      let ?w' = "emit (Delete bucket_name (name b)) (w\<lparr>storage := (storage w)(bucket_name \<mapsto> bs')\<rparr>)"
      from Cons.IH [of ?w'] obtain evs where
        evs: "trace (snd (delete_all bucket_name blobs ?w')) = trace ?w' @ evs"
        and ns: "\<forall>e\<in>set evs. \<not> is_submission e" by blast
      have "trace (snd (delete_all bucket_name (b # blobs) w))
            = trace w @ (Delete bucket_name (name b) # evs)"
        using Inr bs' evs by (simp add: emit_def)
      moreover have "\<forall>e\<in>set (Delete bucket_name (name b) # evs). \<not> is_submission e"
        using ns by simp
      ultimately show ?thesis by blast
    qed
  qed
qed

lemma clear_ocr_output_folder_trace:
  "\<exists>evs. trace (snd (clear_ocr_output_folder bucket_name prefix w)) = trace w @ evs
         \<and> (\<forall>e\<in>set evs. \<not> is_submission e)"
proof (cases "get_bucket (storage w) bucket_name")
  case (Inl e)
  then show ?thesis by (simp add: clear_ocr_output_folder_def)
next
  case (Inr bucket)
  obtain c w' where d: "delete_all bucket_name (list_blobs bucket prefix) w = (c, w')"
    by (cases "delete_all bucket_name (list_blobs bucket prefix) w")
  from delete_all_trace [of bucket_name "list_blobs bucket prefix" w] d
  obtain evs where evs: "trace w' = trace w @ evs" and ns: "\<forall>e\<in>set evs. \<not> is_submission e"
    by auto
  show ?thesis
  proof (cases c)
    case (Inl e)
    then show ?thesis using Inr d evs ns by (simp add: clear_ocr_output_folder_def)
  next
    case (Inr u)
    let ?p = "Print (''All blobs with prefix '' @ [CHR 0x27] @ prefix @ [CHR 0x27]
                                @ '' have been deleted from bucket '' @ [CHR 0x27]
                                @ bucket_name @ [CHR 0x27] @ ''.'')"
    have "trace (snd (clear_ocr_output_folder bucket_name prefix w)) = trace w @ (evs @ [?p])"
      using Inr \<open>get_bucket (storage w) bucket_name = Inr bucket\<close> d evs
      by (simp add: clear_ocr_output_folder_def emit_def)
    moreover have "\<forall>e\<in>set (evs @ [?p]). \<not> is_submission e" using ns by simp
    ultimately show ?thesis by blast
  qed
qed

subsection \<open>The call of the OCR service\<close>

lemma async_document_extract_cleanup_fails:
  "clear_ocr_output_folder output_bucket (''ocr/'' @ unique_id) w = (Inl e, w1) \<Longrightarrow>
   async_document_extract client json_loads unique_id bucket source_name output_bucket
     timeout_arg w = (Inl e, w1)"
  by (simp add: async_document_extract_def)

lemma async_request_fields:
  "async_request bucket source_name output_bucket (''ocr/'' @ unique_id) =
     \<lparr>features = [DOCUMENT_TEXT_DETECTION],
      input_cfg = \<lparr>gcs_source = ''gs://'' @ bucket @ ''/'' @ source_name,
                   mime_type = ''application/pdf''\<rparr>,
      output_cfg = \<lparr>gcs_destination = ''gs://'' @ output_bucket @ ''/ocr/'' @ unique_id @ ''/'',
                    batch_size = 2\<rparr>\<rparr>"
  by (simp add: async_request_def)

lemma async_document_extract_submit_fails:
  assumes "clear_ocr_output_folder output_bucket (''ocr/'' @ unique_id) w = (Inr u, w1)"
    and "submit client [async_request bucket source_name output_bucket (''ocr/'' @ unique_id)]
           (storage w1) = Some e"
  shows "async_document_extract client json_loads unique_id bucket source_name output_bucket
     timeout_arg w =
       (Inl e,
        w1\<lparr>trace := trace w1 @ [AsyncBatchAnnotateFiles
           [async_request bucket source_name output_bucket (''ocr/'' @ unique_id)]]\<rparr>)"
  using assms by (simp add: async_document_extract_def emit_def Let_def)

lemma async_document_extract_submitted:
  assumes "clear_ocr_output_folder output_bucket (''ocr/'' @ unique_id) w = (Inr u, w1)"
    and "submit client [async_request bucket source_name output_bucket (''ocr/'' @ unique_id)]
           (storage w1) = None"
    and "await client [async_request bucket source_name output_bucket (''ocr/'' @ unique_id)]
           (case timeout_arg of None \<Rightarrow> 420 | Some t \<Rightarrow> t) (storage w1) = (r, st')"
  shows "async_document_extract client json_loads unique_id bucket source_name output_bucket
     timeout_arg w =
       ((case r of
           Some e \<Rightarrow> Inl e
         | None \<Rightarrow>
             get_ocr_output_from_bucket json_loads
               (''gs://'' @ output_bucket @ ''/ocr/'' @ unique_id @ ''/'') output_bucket st'),
        \<lparr>storage = st',
         trace = trace w1 @
           [AsyncBatchAnnotateFiles
              [async_request bucket source_name output_bucket (''ocr/'' @ unique_id)],
            Print ''OCR: waiting for the operation to finish.'',
            OperationResult (case timeout_arg of None \<Rightarrow> 420 | Some t \<Rightarrow> t)]\<rparr>)"
  using assms by (simp add: async_document_extract_def emit_def Let_def split: option.splits)

lemma async_document_extract_served:
  assumes "clear_ocr_output_folder output_bucket (''ocr/'' @ unique_id) w = (Inr (), w1)"
  shows "fst (async_document_extract client json_loads unique_id bucket source_name
                output_bucket timeout_arg w)
         = (case submit client [async_request bucket source_name output_bucket (''ocr/'' @ unique_id)] (storage w1) of
              Some e \<Rightarrow> Inl e
            | None \<Rightarrow>
                (case fst (await client [async_request bucket source_name output_bucket (''ocr/'' @ unique_id)] (case timeout_arg of None \<Rightarrow> 420 | Some t \<Rightarrow> t) (storage w1)) of
                   Some e \<Rightarrow> Inl e
                 | None \<Rightarrow>
                     get_ocr_output_from_bucket json_loads (''gs://'' @ output_bucket @ ''/'' @ (''ocr/'' @ unique_id) @ ''/'') output_bucket
                       (snd (await client [async_request bucket source_name output_bucket (''ocr/'' @ unique_id)] (case timeout_arg of None \<Rightarrow> 420 | Some t \<Rightarrow> t) (storage w1)))))"
proof (cases "submit client
                [async_request bucket source_name output_bucket (''ocr/'' @ unique_id)]
                (storage w1)")
  case (Some e)
  then show ?thesis
    using async_document_extract_submit_fails [OF assms Some, of json_loads timeout_arg]
    by (simp only: fst_conv option.case)
next
  case None
  obtain r st' where aw: "await client
      [async_request bucket source_name output_bucket (''ocr/'' @ unique_id)]
      (case timeout_arg of None \<Rightarrow> 420 | Some t \<Rightarrow> t) (storage w1) = (r, st')"
    by (cases "await client
      [async_request bucket source_name output_bucket (''ocr/'' @ unique_id)]
      (case timeout_arg of None \<Rightarrow> 420 | Some t \<Rightarrow> t) (storage w1)")
  have d: "''gs://'' @ output_bucket @ ''/'' @ (''ocr/'' @ unique_id) @ ''/''
           = ''gs://'' @ output_bucket @ ''/ocr/'' @ unique_id @ ''/''"
    by simp
  show ?thesis
    using async_document_extract_submitted [OF assms None aw, of json_loads]
    by (simp only: None aw d fst_conv snd_conv option.case)
qed

lemma clear_ocr_output_folder_submissions:
  assumes "clear_ocr_output_folder bucket_name prefix w = (c, w1)"
  shows "filter is_submission (trace w1) = filter is_submission (trace w)"
proof -
  from clear_ocr_output_folder_trace [of bucket_name prefix w] assms
  obtain evs where "trace w1 = trace w @ evs" and "\<forall>e\<in>set evs. \<not> is_submission e"
    by auto
  then show ?thesis by simp
qed

section \<open>The claims\<close>

text \<open>
  Claim C1. The objects are processed in ascending order of the start page that
  \<open>extract_page_number\<close> reads from \<^verbatim>\<open>output-<N>-to-<M>\<close> in the name: the processing
  order is a rearrangement of the listing, sorted by that key; a name without such a
  substring has key \<open>-1\<close>, every other name a key that is not negative, so that the
  objects with unparseable names come first, whatever the listing order; and the text
  returned is the concatenation of the contributions of the objects in that order.
  The key is tied to the name as the specification words it: the search finds nothing
  exactly when the name holds no substring \<^verbatim>\<open>output-<N>-to-<M>\<close> with two non-empty runs
  of digits, and then the key is \<open>-1\<close>; otherwise it finds the \<open>N\<close> of the leftmost such
  substring, and the key is the number that \<open>N\<close> denotes in base ten.
\<close>

theorem concatenation_follows_start_page:
  "sorted (map extract_page_number (sorted_blobs blobs))
   \<and> mset (sorted_blobs blobs) = mset blobs
   \<and> (\<forall>b. re_search_output (name b) = None \<longrightarrow> extract_page_number b = - 1)
   \<and> (\<forall>b g. re_search_output (name b) = Some g \<longrightarrow>
          extract_page_number b = py_int g \<and> 0 \<le> extract_page_number b)
   \<and> sorted_blobs blobs =
          filter (\<lambda>b. re_search_output (name b) = None) blobs
          @ sorted_blobs (filter (\<lambda>b. re_search_output (name b) \<noteq> None) blobs)
   \<and> (re_match_gs uri = Some (uri_bucket, prefix) \<and> get_bucket st bucket_name = Inr bucket
        \<and> blobs = list_blobs bucket prefix
        \<and> get_ocr_output_from_bucket json_loads uri bucket_name st = Inr complete_text
        \<longrightarrow> complete_text = concat (map (output_text json_loads) (sorted_blobs blobs)))
   \<and> (\<forall>b :: blob. (re_search_output (name b) = None) = (\<not> has_page_range (name b)))
   \<and> (\<forall>(b :: blob) N. (re_search_output (name b) = Some N) = first_page_range N (name b))
   \<and> (\<forall>b. \<not> has_page_range (name b) \<longrightarrow> extract_page_number b = - 1)
   \<and> (\<forall>b :: blob. has_page_range (name b) \<longrightarrow> (\<exists>N. first_page_range N (name b)))
   \<and> (\<forall>b N. first_page_range N (name b) \<longrightarrow>
          extract_page_number b = decimal N \<and> 0 \<le> extract_page_number b)
   \<and> map digit_value ''0123456789'' = [0, 1, 2, 3, 4, 5, 6, 7, 8, 9]"
proof -
  have srt: "sorted (map extract_page_number (sorted_blobs blobs))"
    by (simp add: sorted_blobs_def)
  have perm: "mset (sorted_blobs blobs) = mset blobs"
    by (simp add: sorted_blobs_def)
  have un: "\<forall>b. re_search_output (name b) = None \<longrightarrow> extract_page_number b = - 1"
    by (simp add: extract_page_number_unparseable)
  have pa: "\<forall>b g. re_search_output (name b) = Some g \<longrightarrow>
          extract_page_number b = py_int g \<and> 0 \<le> extract_page_number b"
  proof (intro allI impI)
    fix b :: blob and g assume g: "re_search_output (name b) = Some g"
    then have "extract_page_number b = py_int g" by (simp add: extract_page_number_def)
    moreover have "0 \<le> extract_page_number b"
      using g extract_page_number_parseable [of b] by simp
    ultimately show "extract_page_number b = py_int g \<and> 0 \<le> extract_page_number b" ..
  qed
  have cat: "re_match_gs uri = Some (uri_bucket, prefix) \<and> get_bucket st bucket_name = Inr bucket
        \<and> blobs = list_blobs bucket prefix
        \<and> get_ocr_output_from_bucket json_loads uri bucket_name st = Inr complete_text
        \<longrightarrow> complete_text = concat (map (output_text json_loads) (sorted_blobs blobs))"
  proof
    assume h: "re_match_gs uri = Some (uri_bucket, prefix) \<and> get_bucket st bucket_name = Inr bucket
        \<and> blobs = list_blobs bucket prefix
        \<and> get_ocr_output_from_bucket json_loads uri bucket_name st = Inr complete_text"
    then have "add_outputs json_loads [] (sorted_blobs blobs) = Inr complete_text"
      using get_ocr_output_from_bucket_listing [of uri uri_bucket prefix st bucket_name bucket json_loads]
      by auto
    then have "complete_text = [] @ concat (map (output_text json_loads) (sorted_blobs blobs))"
      by (rule add_outputs_concat)
    then show "complete_text = concat (map (output_text json_loads) (sorted_blobs blobs))" by simp
  qed
  have none: "\<forall>b :: blob. (re_search_output (name b) = None) = (\<not> has_page_range (name b))"
    by (simp add: re_search_output_None_iff)
  have some: "\<forall>(b :: blob) N. (re_search_output (name b) = Some N) = first_page_range N (name b)"
    by (simp add: re_search_output_Some_iff)
  have absent: "\<forall>b. \<not> has_page_range (name b) \<longrightarrow> extract_page_number b = - 1"
    using un none by blast
  have leftmost: "\<forall>b :: blob. has_page_range (name b) \<longrightarrow> (\<exists>N. first_page_range N (name b))"
  proof (intro allI impI)
    fix b :: blob assume "has_page_range (name b)"
    then have "re_search_output (name b) \<noteq> None" using none by blast
    then obtain N where "re_search_output (name b) = Some N" by blast
    then have "first_page_range N (name b)" using some by blast
    then show "\<exists>N. first_page_range N (name b)" ..
  qed
  have key: "\<forall>b N. first_page_range N (name b) \<longrightarrow>
          extract_page_number b = decimal N \<and> 0 \<le> extract_page_number b"
  proof (intro allI impI)
    fix b :: blob and N assume "first_page_range N (name b)"
    then have "re_search_output (name b) = Some N" using some by blast
    then have "extract_page_number b = py_int N \<and> 0 \<le> extract_page_number b"
      using pa by blast
    then show "extract_page_number b = decimal N \<and> 0 \<le> extract_page_number b"
      by (simp add: py_int_decimal)
  qed
  have first: "sorted (map extract_page_number (sorted_blobs blobs))
   \<and> mset (sorted_blobs blobs) = mset blobs
   \<and> (\<forall>b. re_search_output (name b) = None \<longrightarrow> extract_page_number b = - 1)
   \<and> (\<forall>b g. re_search_output (name b) = Some g \<longrightarrow>
          extract_page_number b = py_int g \<and> 0 \<le> extract_page_number b)
   \<and> sorted_blobs blobs =
          filter (\<lambda>b. re_search_output (name b) = None) blobs
          @ sorted_blobs (filter (\<lambda>b. re_search_output (name b) \<noteq> None) blobs)"
    using srt perm un pa sorted_blobs_unparseable_first [of blobs] by blast
  show ?thesis
    using first cat none some absent leftmost key digit_values by (intro conjI) blast+
qed

text \<open>
  The manifest and the folder marker (no page range in the name) come before the two
  output files, which are listed in the opposite order of their pages. A name with
  \<^verbatim>\<open>output-7\<close> but no \<^verbatim>\<open>-to-<M>\<close> has no page range and the key \<open>-1\<close>; leading zeros
  do not change the number.
\<close>

theorem concatenation_follows_start_page_witness:
  "re_match_gs ''gs://out/ocr/x/'' = Some (''out'', ''ocr/x/'')
   \<and> get_bucket [''out'' \<mapsto> example_bucket] ''out'' = Inr example_bucket
   \<and> list_blobs example_bucket ''ocr/x/'' = [world_blob, folder_blob, manifest_blob, hello_blob]
   \<and> get_ocr_output_from_bucket example_loads ''gs://out/ocr/x/'' ''out''
        [''out'' \<mapsto> example_bucket] = Inr ''Hello World''
   \<and> sorted_blobs [world_blob, folder_blob, manifest_blob, hello_blob]
        = [folder_blob, manifest_blob, hello_blob, world_blob]
   \<and> map extract_page_number [folder_blob, manifest_blob, hello_blob, world_blob]
        = [- 1, - 1, 1, 3]
   \<and> ''Hello World'' = concat (map (output_text example_loads)
                                   [folder_blob, manifest_blob, hello_blob, world_blob])
   \<and> \<not> has_page_range (name manifest_blob)
   \<and> \<not> has_page_range ''ocr/x/output-7.json''
   \<and> first_page_range ''1'' (name hello_blob)
   \<and> first_page_range ''3'' (name world_blob)
   \<and> decimal ''3'' = 3
   \<and> extract_page_number \<lparr>name = ''ocr/x/output-7.json'', content = []\<rparr> = - 1
   \<and> extract_page_number \<lparr>name = ''ocr/x/output-012-to-13.json'', content = []\<rparr> = 12"
proof -
  note general = concatenation_follows_start_page
            [where blobs = "[world_blob, folder_blob, manifest_blob, hello_blob]"
               and uri = "''gs://out/ocr/x/''" and uri_bucket = "''out''" and prefix = "''ocr/x/''"
               and st = "[''out'' \<mapsto> example_bucket]" and bucket_name = "''out''"
               and bucket = example_bucket and json_loads = example_loads
               and complete_text = "''Hello World''"]
  have s1: "re_search_output (name manifest_blob) = None" by code_simp
  have s2: "re_search_output (name \<lparr>name = ''ocr/x/output-7.json'', content = []\<rparr>) = None"
    by code_simp
  have s3: "re_search_output (name hello_blob) = Some ''1''" by code_simp
  have s4: "re_search_output (name world_blob) = Some ''3''" by code_simp
  have n1: "\<not> has_page_range (name manifest_blob)" using general s1 by blast
  have n2: "\<not> has_page_range ''ocr/x/output-7.json''"
  proof -
    have "\<not> has_page_range (name \<lparr>name = ''ocr/x/output-7.json'', content = []\<rparr>)"
      using general s2 by blast
    then show ?thesis by simp
  qed
  have f1: "first_page_range ''1'' (name hello_blob)" using general s3 by blast
  have f3: "first_page_range ''3'' (name world_blob)" using general s4 by blast
  have d3: "decimal ''3'' = 3"
  proof -
    have "extract_page_number world_blob = decimal ''3''" using general f3 by blast
    moreover have "extract_page_number world_blob = 3" by code_simp
    ultimately show ?thesis by simp
  qed
  have k7: "extract_page_number \<lparr>name = ''ocr/x/output-7.json'', content = []\<rparr> = - 1"
    by code_simp
  have k12: "extract_page_number \<lparr>name = ''ocr/x/output-012-to-13.json'', content = []\<rparr> = 12"
    by code_simp
  have m: "re_match_gs ''gs://out/ocr/x/'' = Some (''out'', ''ocr/x/'')"
    by code_simp
  have s: "get_bucket [''out'' \<mapsto> example_bucket] ''out'' = Inr example_bucket"
    by (simp add: get_bucket_def)
  have l: "list_blobs example_bucket ''ocr/x/'' = [world_blob, folder_blob, manifest_blob, hello_blob]"
    by code_simp
  have r: "get_ocr_output_from_bucket example_loads ''gs://out/ocr/x/'' ''out''
             [''out'' \<mapsto> example_bucket] = Inr ''Hello World''"
    by code_simp
  have o: "sorted_blobs [world_blob, folder_blob, manifest_blob, hello_blob]
             = [folder_blob, manifest_blob, hello_blob, world_blob]"
    by code_simp
  have k: "map extract_page_number [folder_blob, manifest_blob, hello_blob, world_blob]
             = [- 1, - 1, 1, 3]"
    by code_simp
  have "''Hello World'' = concat (map (output_text example_loads)
          (sorted_blobs [world_blob, folder_blob, manifest_blob, hello_blob]))"
    using concatenation_follows_start_page
            [where blobs = "[world_blob, folder_blob, manifest_blob, hello_blob]"
               and uri = "''gs://out/ocr/x/''" and uri_bucket = "''out''" and prefix = "''ocr/x/''"
               and st = "[''out'' \<mapsto> example_bucket]" and bucket_name = "''out''"
               and bucket = example_bucket and json_loads = example_loads
               and complete_text = "''Hello World''"]
          m s l [symmetric] r
    by (elim conjE impE) (intro conjI, assumption+)
  then have cc: "''Hello World'' = concat (map (output_text example_loads)
                                   [folder_blob, manifest_blob, hello_blob, world_blob])"
    by (simp only: o)
  show ?thesis using m s l r o k cc n1 n2 f1 f3 d3 k7 k12 by (intro conjI)
qed

text \<open>
  Claim C2. When the listing under the prefix holds exactly the objects
  \<^verbatim>\<open>ocr/x/output-1-to-2.json\<close> and \<^verbatim>\<open>ocr/x/output-3-to-4.json\<close> with the two contents of
  the example (in either listing order), and the parser reads these contents as the JSON
  values they denote, the function returns \<open>Hello World\<close>.
\<close>

theorem hello_world_example:
  assumes "json_loads hello_json = Inr hello_value"
    and "json_loads world_json = Inr world_value"
    and "re_match_gs uri = Some (uri_bucket, prefix)"
    and "get_bucket st bucket_name = Inr bucket"
    and "list_blobs bucket prefix = [hello_blob, world_blob]
         \<or> list_blobs bucket prefix = [world_blob, hello_blob]"
  shows "get_ocr_output_from_bucket json_loads uri bucket_name st = Inr ''Hello World''"
proof -
  have o1: "sorted_blobs [hello_blob, world_blob] = [hello_blob, world_blob]"
    by code_simp
  have o2: "sorted_blobs [world_blob, hello_blob] = [hello_blob, world_blob]"
    by code_simp
  have f1: "\<not> endswith (name hello_blob) ''/''" by code_simp
  have f2: "\<not> endswith (name world_blob) ''/''" by code_simp
  have c1: "content hello_blob = hello_json" by (simp add: hello_blob_def)
  have c2: "content world_blob = world_json" by (simp add: world_blob_def)
  have h: "add_output json_loads [] hello_blob = Inr ''Hello ''"
    using f1 c1 assms(1)
    by (simp add: add_output_def hello_value_def add_page_response_def)
  have w: "add_output json_loads ''Hello '' world_blob = Inr ''Hello World''"
    using f2 c2 assms(2)
    by (simp add: add_output_def world_value_def add_page_response_def)
  have "add_outputs json_loads [] [hello_blob, world_blob] = Inr ''Hello World''"
    using h w by simp
  moreover have "sorted_blobs (list_blobs bucket prefix) = [hello_blob, world_blob]"
    using assms(5) o1 o2 by auto
  ultimately show ?thesis
    using get_ocr_output_from_bucket_listing [OF assms(3,4), of json_loads] by simp
qed

text \<open>The bucket lists the second file before the first, and holds a file elsewhere.\<close>

theorem hello_world_example_witness:
  "example_loads hello_json = Inr hello_value
   \<and> example_loads world_json = Inr world_value
   \<and> re_match_gs ''gs://out/ocr/x/'' = Some (''out'', ''ocr/x/'')
   \<and> get_bucket [''out'' \<mapsto> two_files_bucket] ''out'' = Inr two_files_bucket
   \<and> list_blobs two_files_bucket ''ocr/x/'' = [world_blob, hello_blob]
   \<and> get_ocr_output_from_bucket example_loads ''gs://out/ocr/x/'' ''out''
        [''out'' \<mapsto> two_files_bucket] = Inr ''Hello World''"
proof -
  have a: "example_loads hello_json = Inr hello_value" by code_simp
  have b: "example_loads world_json = Inr world_value" by code_simp
  have m: "re_match_gs ''gs://out/ocr/x/'' = Some (''out'', ''ocr/x/'')" by code_simp
  have s: "get_bucket [''out'' \<mapsto> two_files_bucket] ''out'' = Inr two_files_bucket"
    by (simp add: get_bucket_def)
  have l: "list_blobs two_files_bucket ''ocr/x/'' = [world_blob, hello_blob]" by code_simp
  have l': "list_blobs two_files_bucket ''ocr/x/'' = [hello_blob, world_blob]
         \<or> list_blobs two_files_bucket ''ocr/x/'' = [world_blob, hello_blob]"
    using l by simp
  show ?thesis
    using a b m s l l'
      hello_world_example
        [where json_loads = example_loads and uri = "''gs://out/ocr/x/''"
           and uri_bucket = "''out''" and prefix = "''ocr/x/''"
           and st = "[''out'' \<mapsto> two_files_bucket]" and bucket_name = "''out''"
           and bucket = two_files_bucket]
    by simp
qed

text \<open>
  Claim C3. When the URI is parsed, the bucket is found and the listing under the prefix
  is empty, the function returns the empty string, and no error.
\<close>

theorem empty_listing_empty_text:
  "re_match_gs uri = Some (uri_bucket, prefix) \<Longrightarrow> get_bucket st bucket_name = Inr bucket \<Longrightarrow>
   list_blobs bucket prefix = [] \<Longrightarrow>
   get_ocr_output_from_bucket json_loads uri bucket_name st = Inr []"
  by (simp add: get_ocr_output_from_bucket_listing sorted_blobs_def)

text \<open>Nothing in the example bucket is under \<^verbatim>\<open>ocr/z/\<close>.\<close>

theorem empty_listing_empty_text_witness:
  "re_match_gs ''gs://out/ocr/z/'' = Some (''out'', ''ocr/z/'')
   \<and> get_bucket example_store ''out'' = Inr example_bucket
   \<and> list_blobs example_bucket ''ocr/z/'' = []
   \<and> get_ocr_output_from_bucket example_loads ''gs://out/ocr/z/'' ''out'' example_store = Inr []"
proof -
  have m: "re_match_gs ''gs://out/ocr/z/'' = Some (''out'', ''ocr/z/'')"
    by code_simp
  have s: "get_bucket example_store ''out'' = Inr example_bucket"
    by (simp add: example_store_def get_bucket_def)
  have l: "list_blobs example_bucket ''ocr/z/'' = []"
    by code_simp
  show ?thesis
    using m s l
      empty_listing_empty_text
        [where uri = "''gs://out/ocr/z/''" and uri_bucket = "''out''" and prefix = "''ocr/z/''"
           and st = example_store and bucket_name = "''out''" and bucket = example_bucket
           and json_loads = example_loads]
    by simp
qed

text \<open>
  Claim C9. Objects with equal keys are processed in their listing order: for every key,
  the objects with that key appear in the processing order as they do in the listing;
  so do, in particular, the objects with unparseable names; and a listing whose objects
  all have the same key is processed as listed.
\<close>

theorem equal_keys_keep_listing_order:
  "filter (\<lambda>b. extract_page_number b = k) (sorted_blobs blobs)
     = filter (\<lambda>b. extract_page_number b = k) blobs
   \<and> filter (\<lambda>b. re_search_output (name b) = None) (sorted_blobs blobs)
     = filter (\<lambda>b. re_search_output (name b) = None) blobs
   \<and> ((\<forall>b\<in>set blobs. extract_page_number b = k) \<longrightarrow> sorted_blobs blobs = blobs)
   \<and> (re_match_gs uri = Some (uri_bucket, prefix) \<and> get_bucket st bucket_name = Inr bucket
        \<and> blobs = list_blobs bucket prefix
        \<longrightarrow> get_ocr_output_from_bucket json_loads uri bucket_name st
              = add_outputs json_loads [] (sorted_blobs blobs))"
proof -
  have stable: "filter (\<lambda>b. extract_page_number b = j) (sorted_blobs blobs)
     = filter (\<lambda>b. extract_page_number b = j) blobs" for j
    unfolding sorted_blobs_def by (rule sort_key_stable)
  have un: "filter (\<lambda>b. re_search_output (name b) = None) (sorted_blobs blobs)
     = filter (\<lambda>b. re_search_output (name b) = None) blobs"
    using stable [of "- 1"] by (simp add: extract_page_number_minus1_iff)
  have same: "(\<forall>b\<in>set blobs. extract_page_number b = k) \<longrightarrow> sorted_blobs blobs = blobs"
  proof
    assume a: "\<forall>b\<in>set blobs. extract_page_number b = k"
    then have "\<forall>b\<in>set (sorted_blobs blobs). extract_page_number b = k"
      by (simp add: sorted_blobs_def)
    then have "filter (\<lambda>b. extract_page_number b = k) (sorted_blobs blobs) = sorted_blobs blobs"
      by simp
    moreover have "filter (\<lambda>b. extract_page_number b = k) blobs = blobs"
      using a by simp
    ultimately show "sorted_blobs blobs = blobs" using stable [of k] by simp
  qed
  have run: "re_match_gs uri = Some (uri_bucket, prefix) \<and> get_bucket st bucket_name = Inr bucket
        \<and> blobs = list_blobs bucket prefix
        \<longrightarrow> get_ocr_output_from_bucket json_loads uri bucket_name st
              = add_outputs json_loads [] (sorted_blobs blobs)"
    using get_ocr_output_from_bucket_listing [of uri uri_bucket prefix st bucket_name bucket json_loads]
    by auto
  show ?thesis using stable [of k] un same run by blast
qed

text \<open>
  Three names without a page range keep their listing order, although it is not the
  alphabetical one; among four objects the two unparseable ones keep theirs.
\<close>

theorem equal_keys_keep_listing_order_witness:
  "map extract_page_number [notes_blob, manifest_blob, folder_blob] = [- 1, - 1, - 1]
   \<and> sorted_blobs [notes_blob, manifest_blob, folder_blob] = [notes_blob, manifest_blob, folder_blob]
   \<and> sorted_blobs [world_blob, notes_blob, hello_blob, manifest_blob]
       = [notes_blob, manifest_blob, hello_blob, world_blob]"
proof -
  have a: "map extract_page_number [notes_blob, manifest_blob, folder_blob] = [- 1, - 1, - 1]"
    by code_simp
  then have "\<forall>b\<in>set [notes_blob, manifest_blob, folder_blob]. extract_page_number b = - 1"
    by simp
  then have "sorted_blobs [notes_blob, manifest_blob, folder_blob]
           = [notes_blob, manifest_blob, folder_blob]"
    using equal_keys_keep_listing_order
            [where blobs = "[notes_blob, manifest_blob, folder_blob]" and k = "- 1"]
    by blast
  moreover have "sorted_blobs [world_blob, notes_blob, hello_blob, manifest_blob]
       = [notes_blob, manifest_blob, hello_blob, world_blob]"
    by code_simp
  ultimately show ?thesis using a by blast
qed

text \<open>
  Claim C4. When every file of the listing parses to a JSON object of the expected shape
  (an optional \<open>responses\<close> array of objects, each with an optional \<open>fullTextAnnotation\<close>
  object, which has an optional \<open>text\<close> string), the function raises nothing and
  returns the concatenation of the text values that are present, in the order of the
  \<open>responses\<close> array within each file and of the sorted listing across files: a file
  without \<open>responses\<close>, a page response without annotation and an annotation without
  text add nothing.
\<close>

theorem missing_fields_contribute_nothing:
  assumes "re_match_gs uri = Some (uri_bucket, prefix)"
    and "get_bucket st bucket_name = Inr bucket"
    and "\<forall>b\<in>set (list_blobs bucket prefix).
           \<not> endswith (name b) ''/'' \<longrightarrow>
           json_loads (content b) = Inr (parsed b) \<and> wf_output (parsed b)"
  shows "get_ocr_output_from_bucket json_loads uri bucket_name st =
           Inr (concat (map (\<lambda>b. output_text_spec (parsed b))
                  (filter (\<lambda>b. \<not> endswith (name b) ''/'')
                     (sorted_blobs (list_blobs bucket prefix)))))"
proof -
  have "\<forall>b\<in>set (sorted_blobs (list_blobs bucket prefix)).
           \<not> endswith (name b) ''/'' \<longrightarrow>
           json_loads (content b) = Inr (parsed b) \<and> wf_output (parsed b)"
    using assms(3) by (simp add: sorted_blobs_def)
  then have "add_outputs json_loads [] (sorted_blobs (list_blobs bucket prefix)) =
     Inr ([] @ concat (map (\<lambda>b. output_text_spec (parsed b))
                          (filter (\<lambda>b. \<not> endswith (name b) ''/'')
                             (sorted_blobs (list_blobs bucket prefix)))))"
    by (rule add_outputs_wf)
  then show ?thesis
    using get_ocr_output_from_bucket_listing [OF assms(1,2), of json_loads] by simp
qed

text \<open>
  A manifest without \<open>responses\<close>, and a file whose first page response has no
  annotation and whose second has an annotation without text.
\<close>

theorem missing_fields_contribute_nothing_witness:
  "re_match_gs ''gs://out/ocr/x/'' = Some (''out'', ''ocr/x/'')
   \<and> get_bucket [''out'' \<mapsto> sparse_bucket] ''out'' = Inr sparse_bucket
   \<and> list_blobs sparse_bucket ''ocr/x/'' = [sparse_blob, folder_blob, hello_blob, manifest_blob]
   \<and> endswith (name folder_blob) ''/''
   \<and> map (\<lambda>b. example_loads (content b)) [sparse_blob, hello_blob, manifest_blob]
       = map (\<lambda>b. Inr (example_parsed b)) [sparse_blob, hello_blob, manifest_blob]
   \<and> list_all (\<lambda>b. wf_output (example_parsed b)) [sparse_blob, hello_blob, manifest_blob]
   \<and> output_text_spec (example_parsed manifest_blob) = []
   \<and> output_text_spec (example_parsed sparse_blob) = ''!''
   \<and> get_ocr_output_from_bucket example_loads ''gs://out/ocr/x/'' ''out''
        [''out'' \<mapsto> sparse_bucket] = Inr ''Hello !''"
proof -
  have m: "re_match_gs ''gs://out/ocr/x/'' = Some (''out'', ''ocr/x/'')"
    by code_simp
  have s: "get_bucket [''out'' \<mapsto> sparse_bucket] ''out'' = Inr sparse_bucket"
    by (simp add: get_bucket_def)
  have l: "list_blobs sparse_bucket ''ocr/x/''
             = [sparse_blob, folder_blob, hello_blob, manifest_blob]"
    by code_simp
  have f: "endswith (name folder_blob) ''/''"
    by code_simp
  have p: "map (\<lambda>b. example_loads (content b)) [sparse_blob, hello_blob, manifest_blob]
       = map (\<lambda>b. Inr (example_parsed b)) [sparse_blob, hello_blob, manifest_blob]"
    by code_simp
  have w: "list_all (\<lambda>b. wf_output (example_parsed b)) [sparse_blob, hello_blob, manifest_blob]"
    by code_simp
  have t1: "output_text_spec (example_parsed manifest_blob) = []"
    by code_simp
  have t2: "output_text_spec (example_parsed sparse_blob) = ''!''"
    by code_simp
  have c: "concat (map (\<lambda>b. output_text_spec (example_parsed b))
                  (filter (\<lambda>b. \<not> endswith (name b) ''/'')
                     (sorted_blobs (list_blobs sparse_bucket ''ocr/x/'')))) = ''Hello !''"
    by code_simp
  have h: "\<forall>b\<in>set (list_blobs sparse_bucket ''ocr/x/'').
           \<not> endswith (name b) ''/'' \<longrightarrow>
           example_loads (content b) = Inr (example_parsed b) \<and> wf_output (example_parsed b)"
    using f p w unfolding l by simp
  have "get_ocr_output_from_bucket example_loads ''gs://out/ocr/x/'' ''out''
        [''out'' \<mapsto> sparse_bucket] = Inr ''Hello !''"
    using missing_fields_contribute_nothing [OF m s, of example_loads example_parsed] h c
    by simp
  then show ?thesis using m s l f p w t1 t2 by blast
qed

text \<open>
  Claim C5. An object whose name ends in \<open>/\<close> contributes nothing, whatever its content:
  the result is the same when the contents of all such objects are replaced by any
  others, and the same when these objects are not in the bucket at all.
\<close>

theorem folder_markers_contribute_nothing:
  assumes "get_bucket st bucket_name = Inr bucket"
  shows "get_ocr_output_from_bucket json_loads uri bucket_name
           (st(bucket_name \<mapsto>
              map (\<lambda>b. if endswith (name b) ''/'' then b\<lparr>content := c b\<rparr> else b) bucket))
         = get_ocr_output_from_bucket json_loads uri bucket_name st
       \<and> get_ocr_output_from_bucket json_loads uri bucket_name
           (st(bucket_name \<mapsto> filter (\<lambda>b. \<not> endswith (name b) ''/'') bucket))
         = get_ocr_output_from_bucket json_loads uri bucket_name st"
proof (cases "re_match_gs uri")
  case None
  then show ?thesis by (simp add: get_ocr_output_from_bucket_def)
next
  case (Some gs)
  obtain uri_bucket prefix where gs: "gs = (uri_bucket, prefix)" by (cases gs)
  let ?g = "\<lambda>b. if endswith (name b) ''/'' then b\<lparr>content := c b\<rparr> else b"
  let ?file = "\<lambda>b. \<not> endswith (name b) ''/''"
  have m: "re_match_gs uri = Some (uri_bucket, prefix)" using Some gs by simp
  have base: "get_ocr_output_from_bucket json_loads uri bucket_name st =
     add_outputs json_loads [] (sorted_blobs (list_blobs bucket prefix))"
    using m assms by (rule get_ocr_output_from_bucket_listing)
  have nm: "name (?g b) = name b" for b by simp
  have key: "extract_page_number (?g b) = extract_page_number b" for b
    by (simp add: extract_page_number_def)
  have same: "add_output json_loads acc (?g b) = add_output json_loads acc b" for acc b
    by (simp add: add_output_def)
  have l1: "list_blobs (map ?g bucket) prefix = map ?g (list_blobs bucket prefix)"
    by (simp add: list_blobs_def filter_map comp_def)
  have s1: "sorted_blobs (map ?g (list_blobs bucket prefix))
          = map ?g (sorted_blobs (list_blobs bucket prefix))"
    unfolding sorted_blobs_def using key by (rule sort_key_map_same_key)
  have a1: "add_outputs json_loads [] (map ?g (sorted_blobs (list_blobs bucket prefix)))
          = add_outputs json_loads [] (sorted_blobs (list_blobs bucket prefix))"
    using same by (rule add_outputs_map_same)
  have g1: "get_bucket (st(bucket_name \<mapsto> map ?g bucket)) bucket_name = Inr (map ?g bucket)"
    by (simp add: get_bucket_def)
  have r1: "get_ocr_output_from_bucket json_loads uri bucket_name
              (st(bucket_name \<mapsto> map ?g bucket))
          = get_ocr_output_from_bucket json_loads uri bucket_name st"
    using get_ocr_output_from_bucket_listing [OF m g1, of json_loads] l1 s1 a1 base by simp
  have l2: "list_blobs (filter ?file bucket) prefix = filter ?file (list_blobs bucket prefix)"
    by (auto simp: list_blobs_def intro: filter_cong)
  have s2: "sorted_blobs (filter ?file (list_blobs bucket prefix))
          = filter ?file (sorted_blobs (list_blobs bucket prefix))"
    unfolding sorted_blobs_def by (rule filter_sort [symmetric])
  have a2: "add_outputs json_loads [] (filter ?file (sorted_blobs (list_blobs bucket prefix)))
          = add_outputs json_loads [] (sorted_blobs (list_blobs bucket prefix))"
    by (rule add_outputs_filter_folders)
  have g2: "get_bucket (st(bucket_name \<mapsto> filter ?file bucket)) bucket_name
          = Inr (filter ?file bucket)"
    by (simp add: get_bucket_def)
  have r2: "get_ocr_output_from_bucket json_loads uri bucket_name
              (st(bucket_name \<mapsto> filter ?file bucket))
          = get_ocr_output_from_bucket json_loads uri bucket_name st"
    using get_ocr_output_from_bucket_listing [OF m g2, of json_loads] l2 s2 a2 base by simp
  show ?thesis using r1 r2 by blast
qed

text \<open>
  The folder marker of the example has an empty content, which is not JSON; with the
  content of an output file in its place the result is the same.
\<close>

theorem folder_markers_contribute_nothing_witness:
  "get_bucket example_store ''out'' = Inr example_bucket
   \<and> map (\<lambda>b. if endswith (name b) ''/'' then b\<lparr>content := hello_json\<rparr> else b) example_bucket
       = [world_blob, folder_blob\<lparr>content := hello_json\<rparr>, other_blob, stale_blob,
          manifest_blob, hello_blob]
   \<and> get_ocr_output_from_bucket example_loads ''gs://out/ocr/x/'' ''out''
        (example_store(''out'' \<mapsto>
           map (\<lambda>b. if endswith (name b) ''/'' then b\<lparr>content := hello_json\<rparr> else b)
             example_bucket))
       = Inr ''Hello World''
   \<and> get_ocr_output_from_bucket example_loads ''gs://out/ocr/x/'' ''out'' example_store
       = Inr ''Hello World''"
proof -
  have g: "get_bucket example_store ''out'' = Inr example_bucket"
    by (simp add: example_store_def get_bucket_def)
  have m: "map (\<lambda>b. if endswith (name b) ''/'' then b\<lparr>content := hello_json\<rparr> else b) example_bucket
       = [world_blob, folder_blob\<lparr>content := hello_json\<rparr>, other_blob, stale_blob,
          manifest_blob, hello_blob]"
    by code_simp
  have r: "get_ocr_output_from_bucket example_loads ''gs://out/ocr/x/'' ''out'' example_store
       = Inr ''Hello World''"
    by code_simp
  show ?thesis
    using g m r
      folder_markers_contribute_nothing
        [OF g, of example_loads "''gs://out/ocr/x/''" "\<lambda>b. hello_json"]
    by simp
qed

text \<open>
  Claim C6. On a bucket that exists (with every name once), the cleanup succeeds; after
  it the bucket holds exactly the objects whose names do not start with the prefix,
  unchanged and in their order; the other buckets are as before; one deletion is issued
  per listed object; and when no object matches the prefix the store is unchanged.
\<close>

theorem clear_deletes_exactly_the_prefix:
  assumes "storage w bucket_name = Some bucket" and "wf_bucket bucket"
  shows "fst (clear_ocr_output_folder bucket_name prefix w) = Inr ()
       \<and> storage (snd (clear_ocr_output_folder bucket_name prefix w)) bucket_name
           = Some (filter (\<lambda>b. \<not> startswith (name b) prefix) bucket)
       \<and> (\<forall>other. other \<noteq> bucket_name \<longrightarrow>
             storage (snd (clear_ocr_output_folder bucket_name prefix w)) other
               = storage w other)
       \<and> trace (snd (clear_ocr_output_folder bucket_name prefix w))
           = trace w @ map (\<lambda>b. Delete bucket_name (name b)) (list_blobs bucket prefix)
             @ [Print (''All blobs with prefix '' @ [CHR 0x27] @ prefix @ [CHR 0x27]
                       @ '' have been deleted from bucket '' @ [CHR 0x27]
                       @ bucket_name @ [CHR 0x27] @ ''.'')]
       \<and> (list_blobs bucket prefix = [] \<longrightarrow>
             storage (snd (clear_ocr_output_folder bucket_name prefix w)) = storage w)"
proof -
  note run = clear_ocr_output_folder_ok [OF assms, of prefix]
  have noop: "list_blobs bucket prefix = [] \<longrightarrow>
             storage (snd (clear_ocr_output_folder bucket_name prefix w)) = storage w"
  proof
    assume "list_blobs bucket prefix = []"
    then have "\<forall>b\<in>set bucket. \<not> startswith (name b) prefix"
      by (simp add: list_blobs_def filter_empty_conv)
    then have "filter (\<lambda>b. \<not> startswith (name b) prefix) bucket = bucket"
      by simp
    then have "storage (snd (clear_ocr_output_folder bucket_name prefix w))
               = (storage w)(bucket_name \<mapsto> bucket)"
      using run by simp
    then show "storage (snd (clear_ocr_output_folder bucket_name prefix w)) = storage w"
      using assms(1) by (simp add: map_upd_triv)
  qed
  show ?thesis using run noop by simp
qed

text \<open>
  Under \<^verbatim>\<open>ocr/x\<close> the example bucket loses four of its six objects; under \<^verbatim>\<open>ocr/z\<close> it
  has none to lose.
\<close>

theorem clear_deletes_exactly_the_prefix_witness:
  "storage example_world ''out'' = Some example_bucket
   \<and> wf_bucket example_bucket
   \<and> fst (clear_ocr_output_folder ''out'' ''ocr/x'' example_world) = Inr ()
   \<and> storage (snd (clear_ocr_output_folder ''out'' ''ocr/x'' example_world)) ''out''
       = Some [other_blob, stale_blob]
   \<and> list_blobs example_bucket ''ocr/z'' = []
   \<and> storage (snd (clear_ocr_output_folder ''out'' ''ocr/z'' example_world))
       = storage example_world"
proof -
  have s: "storage example_world ''out'' = Some example_bucket"
    by (simp add: example_world_def example_store_def)
  have d: "wf_bucket example_bucket"
    by code_simp
  have f: "filter (\<lambda>b. \<not> startswith (name b) ''ocr/x'') example_bucket = [other_blob, stale_blob]"
    by code_simp
  have z: "list_blobs example_bucket ''ocr/z'' = []"
    by code_simp
  show ?thesis
    using s d f z
      clear_deletes_exactly_the_prefix [OF s d, of "''ocr/x''"]
      clear_deletes_exactly_the_prefix [OF s d, of "''ocr/z''"]
    by simp
qed

text \<open>
  Claim C7. In every call the prefix is \<^verbatim>\<open>ocr/\<close> followed by the identifier drawn in
  that call; the cleanup of the destination bucket at that prefix runs first, so that
  all its events come before the submission of the request, whose output location is
  \<^verbatim>\<open>gs://<output_bucket>/<prefix>/\<close>; when the cleanup raises, nothing follows it.
  The request is submitted against, and awaited on, the store that the cleanup left:
  when the destination bucket exists that store holds no object under the prefix, and
  the result of the call is what the service and the collection of the output make of
  that store.
\<close>

theorem cleanup_precedes_submission:
  "\<exists>cleanup rest.
      trace (snd (clear_ocr_output_folder output_bucket (''ocr/'' @ unique_id) w))
        = trace w @ cleanup
    \<and> (\<forall>e\<in>set cleanup. \<not> is_submission e)
    \<and> trace (snd (async_document_extract client json_loads unique_id bucket source_name
                     output_bucket timeout_arg w))
        = trace w @ cleanup @ rest
    \<and> (fst (clear_ocr_output_folder output_bucket (''ocr/'' @ unique_id) w) = Inr ()
        \<longrightarrow> rest \<noteq> []
            \<and> hd rest = AsyncBatchAnnotateFiles
                 [async_request bucket source_name output_bucket (''ocr/'' @ unique_id)]
            \<and> (\<forall>e\<in>set (tl rest). \<not> is_submission e))
    \<and> (fst (clear_ocr_output_folder output_bucket (''ocr/'' @ unique_id) w) \<noteq> Inr ()
        \<longrightarrow> rest = [])
    \<and> gcs_destination (output_cfg
          (async_request bucket source_name output_bucket (''ocr/'' @ unique_id)))
        = ''gs://'' @ output_bucket @ ''/'' @ (''ocr/'' @ unique_id) @ ''/''
    \<and> (\<forall>bk. storage w output_bucket = Some bk \<and> wf_bucket bk \<longrightarrow>
          cleanup = map (\<lambda>b. Delete output_bucket (name b))
                      (list_blobs bk (''ocr/'' @ unique_id))
                    @ [Print (''All blobs with prefix '' @ [CHR 0x27] @ (''ocr/'' @ unique_id)
                              @ [CHR 0x27] @ '' have been deleted from bucket '' @ [CHR 0x27]
                              @ output_bucket @ [CHR 0x27] @ ''.'')]
        \<and> storage (snd (clear_ocr_output_folder output_bucket (''ocr/'' @ unique_id) w))
            = (storage w)(output_bucket \<mapsto>
                 filter (\<lambda>b. \<not> startswith (name b) (''ocr/'' @ unique_id)) bk)
        \<and> list_blobs (filter (\<lambda>b. \<not> startswith (name b) (''ocr/'' @ unique_id)) bk)
              (''ocr/'' @ unique_id) = [])
    \<and> (fst (clear_ocr_output_folder output_bucket (''ocr/'' @ unique_id) w) = Inr ()
        \<longrightarrow> fst (async_document_extract client json_loads unique_id bucket source_name
                   output_bucket timeout_arg w)
            = (case submit client [async_request bucket source_name output_bucket (''ocr/'' @ unique_id)] (storage (snd (clear_ocr_output_folder output_bucket (''ocr/'' @ unique_id) w))) of
                 Some e \<Rightarrow> Inl e
               | None \<Rightarrow>
                   (case fst (await client [async_request bucket source_name output_bucket (''ocr/'' @ unique_id)] (case timeout_arg of None \<Rightarrow> 420 | Some t \<Rightarrow> t) (storage (snd (clear_ocr_output_folder output_bucket (''ocr/'' @ unique_id) w)))) of
                      Some e \<Rightarrow> Inl e
                    | None \<Rightarrow>
                        get_ocr_output_from_bucket json_loads (''gs://'' @ output_bucket @ ''/'' @ (''ocr/'' @ unique_id) @ ''/'') output_bucket
                          (snd (await client [async_request bucket source_name output_bucket (''ocr/'' @ unique_id)] (case timeout_arg of None \<Rightarrow> 420 | Some t \<Rightarrow> t) (storage (snd (clear_ocr_output_folder output_bucket (''ocr/'' @ unique_id) w))))))))"
proof -
  let ?prefix = "''ocr/'' @ unique_id"
  let ?clear = "clear_ocr_output_folder output_bucket ?prefix w"
  let ?run = "async_document_extract client json_loads unique_id bucket source_name
                output_bucket timeout_arg w"
  let ?req = "async_request bucket source_name output_bucket ?prefix"
  let ?timeout = "case timeout_arg of None \<Rightarrow> 420 | Some t \<Rightarrow> t"
  obtain c w1 where cw: "?clear = (c, w1)" by (cases ?clear)
  from clear_ocr_output_folder_trace [of output_bucket ?prefix w] cw
  obtain cleanup where cl: "trace w1 = trace w @ cleanup"
    and ns: "\<forall>e\<in>set cleanup. \<not> is_submission e"
    by auto
  have dest: "gcs_destination (output_cfg ?req)
        = ''gs://'' @ output_bucket @ ''/'' @ ?prefix @ ''/''"
    by (simp add: async_request_def)
  have known: "\<forall>bk. storage w output_bucket = Some bk \<and> wf_bucket bk \<longrightarrow>
          cleanup = map (\<lambda>b. Delete output_bucket (name b)) (list_blobs bk ?prefix)
                    @ [Print (''All blobs with prefix '' @ [CHR 0x27] @ ?prefix
                              @ [CHR 0x27] @ '' have been deleted from bucket '' @ [CHR 0x27]
                              @ output_bucket @ [CHR 0x27] @ ''.'')]
        \<and> storage (snd ?clear)
            = (storage w)(output_bucket \<mapsto> filter (\<lambda>b. \<not> startswith (name b) ?prefix) bk)
        \<and> list_blobs (filter (\<lambda>b. \<not> startswith (name b) ?prefix) bk) ?prefix = []"
  proof (intro allI impI)
    fix bk assume a: "storage w output_bucket = Some bk \<and> wf_bucket bk"
    let ?events = "map (\<lambda>b. Delete output_bucket (name b)) (list_blobs bk ?prefix)
               @ [Print (''All blobs with prefix '' @ [CHR 0x27] @ ?prefix @ [CHR 0x27]
                                @ '' have been deleted from bucket '' @ [CHR 0x27]
                                @ output_bucket @ [CHR 0x27] @ ''.'')]"
    from a have s: "storage w output_bucket = Some bk" and d: "wf_bucket bk" by blast+
    have "trace (snd ?clear) = trace w @ ?events"
      by (simp only: clear_ocr_output_folder_ok [OF s d] snd_conv world.select_convs)
    moreover have "trace (snd ?clear) = trace w @ cleanup"
      by (simp only: cw snd_conv cl)
    ultimately have "trace w @ cleanup = trace w @ ?events" by (simp only:)
    then have "cleanup = ?events" by (simp only: same_append_eq)
    moreover have "storage (snd ?clear)
            = (storage w)(output_bucket \<mapsto> filter (\<lambda>b. \<not> startswith (name b) ?prefix) bk)"
      by (simp only: clear_ocr_output_folder_ok [OF s d] snd_conv world.select_convs)
    moreover have "list_blobs (filter (\<lambda>b. \<not> startswith (name b) ?prefix) bk) ?prefix = []"
      by (simp add: list_blobs_def)
    ultimately show "cleanup = ?events
        \<and> storage (snd ?clear)
            = (storage w)(output_bucket \<mapsto> filter (\<lambda>b. \<not> startswith (name b) ?prefix) bk)
        \<and> list_blobs (filter (\<lambda>b. \<not> startswith (name b) ?prefix) bk) ?prefix = []"
      by (intro conjI)
  qed
  have served: "fst ?clear = Inr () \<longrightarrow>
      fst ?run = (case submit client [?req] (storage (snd ?clear)) of
           Some e \<Rightarrow> Inl e
         | None \<Rightarrow>
             (case fst (await client [?req] ?timeout (storage (snd ?clear))) of
                Some e \<Rightarrow> Inl e
              | None \<Rightarrow>
                  get_ocr_output_from_bucket json_loads (''gs://'' @ output_bucket @ ''/'' @ ?prefix @ ''/'') output_bucket
                    (snd (await client [?req] ?timeout (storage (snd ?clear))))))"
  proof
    assume "fst ?clear = Inr ()"
    then have "?clear = (Inr (), snd ?clear)" by (simp add: prod_eq_iff)
    then show "fst ?run = (case submit client [?req] (storage (snd ?clear)) of
           Some e \<Rightarrow> Inl e
         | None \<Rightarrow>
             (case fst (await client [?req] ?timeout (storage (snd ?clear))) of
                Some e \<Rightarrow> Inl e
              | None \<Rightarrow>
                  get_ocr_output_from_bucket json_loads (''gs://'' @ output_bucket @ ''/'' @ ?prefix @ ''/'') output_bucket
                    (snd (await client [?req] ?timeout (storage (snd ?clear))))))"
      by (rule async_document_extract_served)
  qed
  have "\<exists>rest. trace (snd ?run) = trace w @ cleanup @ rest
     \<and> (c = Inr () \<longrightarrow> rest \<noteq> [] \<and> hd rest = AsyncBatchAnnotateFiles [?req]
                       \<and> (\<forall>e\<in>set (tl rest). \<not> is_submission e))
     \<and> (c \<noteq> Inr () \<longrightarrow> rest = [])"
  proof (cases c)
    case (Inl e)
    then have "?run = (Inl e, w1)"
      using cw by (simp add: async_document_extract_cleanup_fails)
    then show ?thesis using Inl cl by simp
  next
    case (Inr u)
    show ?thesis
    proof (cases "submit client [?req] (storage w1)")
      case (Some e)
      have "?run = (Inl e, w1\<lparr>trace := trace w1 @ [AsyncBatchAnnotateFiles [?req]]\<rparr>)"
        using cw Inr Some by (simp add: async_document_extract_submit_fails)
      then have "trace (snd ?run) = trace w @ cleanup @ [AsyncBatchAnnotateFiles [?req]]"
        using cl by simp
      then show ?thesis using Inr by simp
    next
      case None
      obtain r st' where aw: "await client [?req] ?timeout (storage w1) = (r, st')"
        by (cases "await client [?req] ?timeout (storage w1)")
      have "trace (snd ?run) = trace w1 @
           [AsyncBatchAnnotateFiles [?req],
            Print ''OCR: waiting for the operation to finish.'',
            OperationResult ?timeout]"
        using async_document_extract_submitted
                [of output_bucket unique_id w u w1 client bucket source_name timeout_arg r st'
                    json_loads]
              cw Inr None aw
        by simp
      then have "trace (snd ?run) = trace w @ cleanup @
           [AsyncBatchAnnotateFiles [?req],
            Print ''OCR: waiting for the operation to finish.'',
            OperationResult ?timeout]"
        using cl by simp
      then show ?thesis using Inr by simp
    qed
  qed
  then obtain rest where "trace (snd ?run) = trace w @ cleanup @ rest"
     and "c = Inr () \<longrightarrow> rest \<noteq> [] \<and> hd rest = AsyncBatchAnnotateFiles [?req]
                       \<and> (\<forall>e\<in>set (tl rest). \<not> is_submission e)"
     and "c \<noteq> Inr () \<longrightarrow> rest = []"
    by blast
  then have "trace (snd ?clear) = trace w @ cleanup
    \<and> (\<forall>e\<in>set cleanup. \<not> is_submission e)
    \<and> trace (snd ?run) = trace w @ cleanup @ rest
    \<and> (fst ?clear = Inr () \<longrightarrow> rest \<noteq> [] \<and> hd rest = AsyncBatchAnnotateFiles [?req]
                       \<and> (\<forall>e\<in>set (tl rest). \<not> is_submission e))
    \<and> (fst ?clear \<noteq> Inr () \<longrightarrow> rest = [])"
    using cw cl ns by simp
  then show ?thesis using dest known served
    by (intro exI [of _ cleanup] exI [of _ rest]) blast
qed

text \<open>
  A stale file under the prefix is deleted, then the request is submitted; the store
  after the cleanup holds the five other objects of the bucket.
\<close>

theorem cleanup_precedes_submission_witness:
  "fst (clear_ocr_output_folder ''out'' (''ocr/'' @ example_id) example_world) = Inr ()
   \<and> trace (snd (clear_ocr_output_folder ''out'' (''ocr/'' @ example_id) example_world))
       = [Delete ''out'' (name stale_blob),
          Print (''All blobs with prefix '' @ [CHR 0x27] @ ''ocr/'' @ example_id @ [CHR 0x27]
                 @ '' have been deleted from bucket '' @ [CHR 0x27] @ ''out'' @ [CHR 0x27]
                 @ ''.'')]
   \<and> trace (snd (async_document_extract example_client example_loads example_id
                    ''src'' ''doc.pdf'' ''out'' None example_world))
       = [Delete ''out'' (name stale_blob),
          Print (''All blobs with prefix '' @ [CHR 0x27] @ ''ocr/'' @ example_id @ [CHR 0x27]
                 @ '' have been deleted from bucket '' @ [CHR 0x27] @ ''out'' @ [CHR 0x27]
                 @ ''.''),
          AsyncBatchAnnotateFiles [example_request],
          Print ''OCR: waiting for the operation to finish.'',
          OperationResult 420]
   \<and> (\<exists>cleanup rest.
          trace (snd (clear_ocr_output_folder ''out'' (''ocr/'' @ example_id) example_world))
            = trace example_world @ cleanup
        \<and> trace (snd (async_document_extract example_client example_loads example_id
                    ''src'' ''doc.pdf'' ''out'' None example_world))
            = trace example_world @ cleanup @ rest
        \<and> hd rest = AsyncBatchAnnotateFiles
                       [async_request ''src'' ''doc.pdf'' ''out'' (''ocr/'' @ example_id)])
   \<and> storage example_world ''out'' = Some example_bucket
   \<and> wf_bucket example_bucket
   \<and> list_blobs example_bucket (''ocr/'' @ example_id) = [stale_blob]
   \<and> storage (snd (clear_ocr_output_folder ''out'' (''ocr/'' @ example_id) example_world))
       = (storage example_world)(''out'' \<mapsto>
            [world_blob, folder_blob, other_blob, manifest_blob, hello_blob])
   \<and> fst (async_document_extract example_client example_loads example_id
             ''src'' ''doc.pdf'' ''out'' None example_world) = Inr ''Hello World''"
proof -
  have sb: "storage example_world ''out'' = Some example_bucket"
    by (simp add: example_world_def example_store_def)
  have wf: "wf_bucket example_bucket"
    by code_simp
  have ls: "list_blobs example_bucket (''ocr/'' @ example_id) = [stale_blob]"
    by code_simp
  have fl: "filter (\<lambda>b. \<not> startswith (name b) (''ocr/'' @ example_id)) example_bucket
          = [world_blob, folder_blob, other_blob, manifest_blob, hello_blob]"
    by code_simp
  have res: "fst (async_document_extract example_client example_loads example_id
             ''src'' ''doc.pdf'' ''out'' None example_world) = Inr ''Hello World''"
    by code_simp
  have c: "fst (clear_ocr_output_folder ''out'' (''ocr/'' @ example_id) example_world) = Inr ()"
    by code_simp
  have t1: "trace (snd (clear_ocr_output_folder ''out'' (''ocr/'' @ example_id) example_world))
       = [Delete ''out'' (name stale_blob),
          Print (''All blobs with prefix '' @ [CHR 0x27] @ ''ocr/'' @ example_id @ [CHR 0x27]
                 @ '' have been deleted from bucket '' @ [CHR 0x27] @ ''out'' @ [CHR 0x27]
                 @ ''.'')]"
    by code_simp
  have t2: "trace (snd (async_document_extract example_client example_loads example_id
                    ''src'' ''doc.pdf'' ''out'' None example_world))
       = [Delete ''out'' (name stale_blob),
          Print (''All blobs with prefix '' @ [CHR 0x27] @ ''ocr/'' @ example_id @ [CHR 0x27]
                 @ '' have been deleted from bucket '' @ [CHR 0x27] @ ''out'' @ [CHR 0x27]
                 @ ''.''),
          AsyncBatchAnnotateFiles [example_request],
          Print ''OCR: waiting for the operation to finish.'',
          OperationResult 420]"
    by code_simp
  have "\<exists>cleanup rest.
          trace (snd (clear_ocr_output_folder ''out'' (''ocr/'' @ example_id) example_world))
            = trace example_world @ cleanup
        \<and> trace (snd (async_document_extract example_client example_loads example_id
                    ''src'' ''doc.pdf'' ''out'' None example_world))
            = trace example_world @ cleanup @ rest
        \<and> hd rest = AsyncBatchAnnotateFiles
                       [async_request ''src'' ''doc.pdf'' ''out'' (''ocr/'' @ example_id)]"
    using cleanup_precedes_submission
            [of "''out''" example_id example_world example_client example_loads
                "''src''" "''doc.pdf''" None] c
    by blast
  moreover have "storage (snd (clear_ocr_output_folder ''out'' (''ocr/'' @ example_id) example_world))
       = (storage example_world)(''out'' \<mapsto>
            filter (\<lambda>b. \<not> startswith (name b) (''ocr/'' @ example_id)) example_bucket)"
    using cleanup_precedes_submission
            [of "''out''" example_id example_world example_client example_loads
                "''src''" "''doc.pdf''" None] sb wf
    by blast
  ultimately show ?thesis using c t1 t2 sb wf ls res unfolding fl by (intro conjI)
qed

text \<open>
  Claim C8, as stated, fails: when the destination bucket does not exist the cleanup
  raises, and the call ends without any request.
\<close>

theorem no_request_without_bucket:
  "fst (async_document_extract example_client example_loads example_id
          ''src'' ''doc.pdf'' ''out'' None empty_world) = Inl NotFound
   \<and> trace (snd (async_document_extract example_client example_loads example_id
                    ''src'' ''doc.pdf'' ''out'' None empty_world)) = []"
  by code_simp

text \<open>
  Claim C8, amended. A call whose cleanup raises submits no request and raises the same
  error. A call whose cleanup returns submits exactly one batch request: document text
  detection as its only feature, \<^verbatim>\<open>gs://<bucket>/<name>\<close> as source with the mime type
  \<^verbatim>\<open>application/pdf\<close>, \<^verbatim>\<open>gs://<output_bucket>/ocr/<id>/\<close> as destination and the batch size 2.
  When the service accepts it, the call waits once, with the timeout given (420 when
  none is given); an error of the wait, a timeout included, is the error of the call,
  and no second request is made.
\<close>

theorem one_request_after_cleanup:
  assumes "clear_ocr_output_folder output_bucket (''ocr/'' @ unique_id) w = (c, w1)"
    and "async_document_extract client json_loads unique_id bucket source_name output_bucket
           timeout_arg w = (r, w')"
    and "request =
           \<lparr>features = [DOCUMENT_TEXT_DETECTION],
            input_cfg = \<lparr>gcs_source = ''gs://'' @ bucket @ ''/'' @ source_name,
                         mime_type = ''application/pdf''\<rparr>,
            output_cfg = \<lparr>gcs_destination =
                            ''gs://'' @ output_bucket @ ''/ocr/'' @ unique_id @ ''/'',
                          batch_size = 2\<rparr>\<rparr>"
    and "timeout = (case timeout_arg of None \<Rightarrow> 420 | Some t \<Rightarrow> t)"
  shows "(\<forall>e. c = Inl e \<longrightarrow> r = Inl e \<and> w' = w1)
       \<and> (c = Inr () \<longrightarrow>
            (\<forall>e. submit client [request] (storage w1) = Some e \<longrightarrow>
                   r = Inl e
                 \<and> trace w' = trace w1 @ [AsyncBatchAnnotateFiles [request]])
          \<and> (submit client [request] (storage w1) = None \<longrightarrow>
                 trace w' = trace w1 @
                   [AsyncBatchAnnotateFiles [request],
                    Print ''OCR: waiting for the operation to finish.'',
                    OperationResult timeout]
               \<and> storage w' = snd (await client [request] timeout (storage w1))
               \<and> (\<forall>e. fst (await client [request] timeout (storage w1)) = Some e \<longrightarrow>
                        r = Inl e)
               \<and> (fst (await client [request] timeout (storage w1)) = None \<longrightarrow>
                        r = get_ocr_output_from_bucket json_loads
                              (gcs_destination (output_cfg request)) output_bucket
                              (storage w'))))
       \<and> (c = Inr () \<longrightarrow>
            filter is_submission (trace w')
              = filter is_submission (trace w) @ [AsyncBatchAnnotateFiles [request]])
       \<and> (c \<noteq> Inr () \<longrightarrow>
            filter is_submission (trace w') = filter is_submission (trace w))"
proof -
  have req: "async_request bucket source_name output_bucket (''ocr/'' @ unique_id) = request"
    unfolding assms(3) by (rule async_request_fields)
  have dest: "gcs_destination (output_cfg request)
            = ''gs://'' @ output_bucket @ ''/ocr/'' @ unique_id @ ''/''"
    by (simp add: assms(3))
  have fails: "\<forall>e. c = Inl e \<longrightarrow> r = Inl e \<and> w' = w1"
  proof (intro allI impI)
    fix e assume "c = Inl e"
    then have "clear_ocr_output_folder output_bucket (''ocr/'' @ unique_id) w = (Inl e, w1)"
      using assms(1) by simp
    then have "async_document_extract client json_loads unique_id bucket source_name
                 output_bucket timeout_arg w = (Inl e, w1)"
      by (rule async_document_extract_cleanup_fails)
    then show "r = Inl e \<and> w' = w1" using assms(2) by simp
  qed
  have ok: "c = Inr () \<longrightarrow>
            (\<forall>e. submit client [request] (storage w1) = Some e \<longrightarrow>
                   r = Inl e
                 \<and> trace w' = trace w1 @ [AsyncBatchAnnotateFiles [request]])
          \<and> (submit client [request] (storage w1) = None \<longrightarrow>
                 trace w' = trace w1 @
                   [AsyncBatchAnnotateFiles [request],
                    Print ''OCR: waiting for the operation to finish.'',
                    OperationResult timeout]
               \<and> storage w' = snd (await client [request] timeout (storage w1))
               \<and> (\<forall>e. fst (await client [request] timeout (storage w1)) = Some e \<longrightarrow>
                        r = Inl e)
               \<and> (fst (await client [request] timeout (storage w1)) = None \<longrightarrow>
                        r = get_ocr_output_from_bucket json_loads
                              (gcs_destination (output_cfg request)) output_bucket
                              (storage w')))"
  proof
    assume "c = Inr ()"
    then have cl: "clear_ocr_output_folder output_bucket (''ocr/'' @ unique_id) w = (Inr (), w1)"
      using assms(1) by simp
    have a: "\<forall>e. submit client [request] (storage w1) = Some e \<longrightarrow>
                   r = Inl e
                 \<and> trace w' = trace w1 @ [AsyncBatchAnnotateFiles [request]]"
    proof (intro allI impI)
      fix e assume "submit client [request] (storage w1) = Some e"
      then have "submit client
                   [async_request bucket source_name output_bucket (''ocr/'' @ unique_id)]
                   (storage w1) = Some e"
        by (simp only: req)
      with cl have "async_document_extract client json_loads unique_id bucket source_name
                      output_bucket timeout_arg w =
          (Inl e,
           w1\<lparr>trace := trace w1 @ [AsyncBatchAnnotateFiles
              [async_request bucket source_name output_bucket (''ocr/'' @ unique_id)]]\<rparr>)"
        by (rule async_document_extract_submit_fails)
      then have "(r, w') = (Inl e, w1\<lparr>trace := trace w1 @ [AsyncBatchAnnotateFiles [request]]\<rparr>)"
        by (simp only: req assms(2))
      then show "r = Inl e \<and> trace w' = trace w1 @ [AsyncBatchAnnotateFiles [request]]"
        by simp
    qed
    have b: "submit client [request] (storage w1) = None \<longrightarrow>
                 trace w' = trace w1 @
                   [AsyncBatchAnnotateFiles [request],
                    Print ''OCR: waiting for the operation to finish.'',
                    OperationResult timeout]
               \<and> storage w' = snd (await client [request] timeout (storage w1))
               \<and> (\<forall>e. fst (await client [request] timeout (storage w1)) = Some e \<longrightarrow>
                        r = Inl e)
               \<and> (fst (await client [request] timeout (storage w1)) = None \<longrightarrow>
                        r = get_ocr_output_from_bucket json_loads
                              (gcs_destination (output_cfg request)) output_bucket
                              (storage w'))"
    proof
      assume "submit client [request] (storage w1) = None"
      then have s: "submit client
                   [async_request bucket source_name output_bucket (''ocr/'' @ unique_id)]
                   (storage w1) = None"
        by (simp only: req)
      obtain ar st' where aw: "await client [request] timeout (storage w1) = (ar, st')"
        by (cases "await client [request] timeout (storage w1)")
      then have aw': "await client
                   [async_request bucket source_name output_bucket (''ocr/'' @ unique_id)]
                   (case timeout_arg of None \<Rightarrow> 420 | Some t \<Rightarrow> t) (storage w1) = (ar, st')"
        by (simp only: req assms(4))
      have "async_document_extract client json_loads unique_id bucket source_name
              output_bucket timeout_arg w =
       ((case ar of
           Some e \<Rightarrow> Inl e
         | None \<Rightarrow>
             get_ocr_output_from_bucket json_loads
               (''gs://'' @ output_bucket @ ''/ocr/'' @ unique_id @ ''/'') output_bucket st'),
        \<lparr>storage = st',
         trace = trace w1 @
           [AsyncBatchAnnotateFiles
              [async_request bucket source_name output_bucket (''ocr/'' @ unique_id)],
            Print ''OCR: waiting for the operation to finish.'',
            OperationResult (case timeout_arg of None \<Rightarrow> 420 | Some t \<Rightarrow> t)]\<rparr>)"
        using cl s aw' by (rule async_document_extract_submitted)
      then have "(r, w') =
       ((case ar of
           Some e \<Rightarrow> Inl e
         | None \<Rightarrow>
             get_ocr_output_from_bucket json_loads
               (gcs_destination (output_cfg request)) output_bucket st'),
        \<lparr>storage = st',
         trace = trace w1 @
           [AsyncBatchAnnotateFiles [request],
            Print ''OCR: waiting for the operation to finish.'',
            OperationResult timeout]\<rparr>)"
        by (simp only: req dest assms(2) assms(4) [symmetric])
      then have r: "r = (case ar of
           Some e \<Rightarrow> Inl e
         | None \<Rightarrow>
             get_ocr_output_from_bucket json_loads
               (gcs_destination (output_cfg request)) output_bucket st')"
        and w': "w' = \<lparr>storage = st',
         trace = trace w1 @
           [AsyncBatchAnnotateFiles [request],
            Print ''OCR: waiting for the operation to finish.'',
            OperationResult timeout]\<rparr>"
        by simp_all
      show "trace w' = trace w1 @
                   [AsyncBatchAnnotateFiles [request],
                    Print ''OCR: waiting for the operation to finish.'',
                    OperationResult timeout]
               \<and> storage w' = snd (await client [request] timeout (storage w1))
               \<and> (\<forall>e. fst (await client [request] timeout (storage w1)) = Some e \<longrightarrow>
                        r = Inl e)
               \<and> (fst (await client [request] timeout (storage w1)) = None \<longrightarrow>
                        r = get_ocr_output_from_bucket json_loads
                              (gcs_destination (output_cfg request)) output_bucket
                              (storage w'))"
        by (simp add: aw r w')
    qed
    show "(\<forall>e. submit client [request] (storage w1) = Some e \<longrightarrow>
                   r = Inl e
                 \<and> trace w' = trace w1 @ [AsyncBatchAnnotateFiles [request]])
          \<and> (submit client [request] (storage w1) = None \<longrightarrow>
                 trace w' = trace w1 @
                   [AsyncBatchAnnotateFiles [request],
                    Print ''OCR: waiting for the operation to finish.'',
                    OperationResult timeout]
               \<and> storage w' = snd (await client [request] timeout (storage w1))
               \<and> (\<forall>e. fst (await client [request] timeout (storage w1)) = Some e \<longrightarrow>
                        r = Inl e)
               \<and> (fst (await client [request] timeout (storage w1)) = None \<longrightarrow>
                        r = get_ocr_output_from_bucket json_loads
                              (gcs_destination (output_cfg request)) output_bucket
                              (storage w')))"
      using a b by (rule conjI)
  qed
  have keep: "filter is_submission (trace w1) = filter is_submission (trace w)"
    using assms(1) by (rule clear_ocr_output_folder_submissions)
  have one: "c = Inr () \<longrightarrow>
            filter is_submission (trace w')
              = filter is_submission (trace w) @ [AsyncBatchAnnotateFiles [request]]"
  proof
    assume ci: "c = Inr ()"
    show "filter is_submission (trace w')
              = filter is_submission (trace w) @ [AsyncBatchAnnotateFiles [request]]"
    proof (cases "submit client [request] (storage w1)")
      case (Some e)
      with ok ci have "trace w' = trace w1 @ [AsyncBatchAnnotateFiles [request]]"
        by blast
      then show ?thesis using keep by simp
    next
      case None
      with ok ci have "trace w' = trace w1 @
                   [AsyncBatchAnnotateFiles [request],
                    Print ''OCR: waiting for the operation to finish.'',
                    OperationResult timeout]"
        by blast
      then show ?thesis using keep by simp
    qed
  qed
  have none: "c \<noteq> Inr () \<longrightarrow>
            filter is_submission (trace w') = filter is_submission (trace w)"
  proof
    assume "c \<noteq> Inr ()"
    then obtain e where "c = Inl e" by (cases c) auto
    with fails have "w' = w1" by blast
    then show "filter is_submission (trace w') = filter is_submission (trace w)"
      using keep by simp
  qed
  show ?thesis using fails ok one none by (intro conjI)
qed

text \<open>
  A run that returns the text of two pages, and a run with a timeout of zero seconds,
  which fails with the timeout error after its single request.
\<close>

theorem one_request_after_cleanup_witness:
  "fst (clear_ocr_output_folder ''out'' (''ocr/'' @ example_id) example_world) = Inr ()
   \<and> submit example_client [example_request]
        (storage (snd (clear_ocr_output_folder ''out'' (''ocr/'' @ example_id) example_world)))
       = None
   \<and> fst (await example_client [example_request] 420
        (storage (snd (clear_ocr_output_folder ''out'' (''ocr/'' @ example_id) example_world))))
       = None
   \<and> fst (async_document_extract example_client example_loads example_id
             ''src'' ''doc.pdf'' ''out'' None example_world) = Inr ''Hello World''
   \<and> trace (snd (async_document_extract example_client example_loads example_id
                    ''src'' ''doc.pdf'' ''out'' None example_world))
       = trace (snd (clear_ocr_output_folder ''out'' (''ocr/'' @ example_id) example_world))
         @ [AsyncBatchAnnotateFiles [example_request],
            Print ''OCR: waiting for the operation to finish.'',
            OperationResult 420]
   \<and> filter is_submission
         (trace (snd (async_document_extract example_client example_loads example_id
                        ''src'' ''doc.pdf'' ''out'' None example_world)))
       = [AsyncBatchAnnotateFiles [example_request]]
   \<and> fst (await example_client [example_request] 0
        (storage (snd (clear_ocr_output_folder ''out'' (''ocr/'' @ example_id) example_world))))
       = Some TimeoutError
   \<and> fst (async_document_extract example_client example_loads example_id
             ''src'' ''doc.pdf'' ''out'' (Some 0) example_world) = Inl TimeoutError
   \<and> filter is_submission
         (trace (snd (async_document_extract example_client example_loads example_id
                        ''src'' ''doc.pdf'' ''out'' (Some 0) example_world)))
       = [AsyncBatchAnnotateFiles [example_request]]"
proof -
  let ?clear = "clear_ocr_output_folder ''out'' (''ocr/'' @ example_id) example_world"
  let ?run = "async_document_extract example_client example_loads example_id
                ''src'' ''doc.pdf'' ''out'' None example_world"
  let ?late = "async_document_extract example_client example_loads example_id
                ''src'' ''doc.pdf'' ''out'' (Some 0) example_world"
  have c: "fst ?clear = Inr ()" by code_simp
  have s: "submit example_client [example_request] (storage (snd ?clear)) = None"
    by (simp add: example_client_def)
  have a: "fst (await example_client [example_request] 420 (storage (snd ?clear))) = None"
    by (simp add: example_client_def example_await_def Let_def)
  have a0: "fst (await example_client [example_request] 0 (storage (snd ?clear)))
              = Some TimeoutError"
    by (simp add: example_client_def example_await_def)
  have r: "fst ?run = Inr ''Hello World''" by code_simp
  have q: "example_request =
           \<lparr>features = [DOCUMENT_TEXT_DETECTION],
            input_cfg = \<lparr>gcs_source = ''gs://'' @ ''src'' @ ''/'' @ ''doc.pdf'',
                         mime_type = ''application/pdf''\<rparr>,
            output_cfg = \<lparr>gcs_destination =
                            ''gs://'' @ ''out'' @ ''/ocr/'' @ example_id @ ''/'',
                          batch_size = 2\<rparr>\<rparr>"
    by (simp add: example_request_def example_id_def)
  have e: "filter is_submission (trace example_world) = []"
    by (simp add: example_world_def)
  have h1: "?clear = (Inr (), snd ?clear)" using c by (simp add: prod_eq_iff)
  have h2: "?run = (fst ?run, snd ?run)" by simp
  have h3: "?late = (fst ?late, snd ?late)" by simp
  note run = one_request_after_cleanup
               [where c = "Inr ()" and ?w1.0 = "snd ?clear" and r = "fst ?run"
                  and w' = "snd ?run" and request = example_request and timeout = 420,
                OF h1 h2 q]
  note late = one_request_after_cleanup
               [where c = "Inr ()" and ?w1.0 = "snd ?clear" and r = "fst ?late"
                  and w' = "snd ?late" and request = example_request and timeout = 0,
                OF h1 h3 q]
  have t: "trace (snd ?run) = trace (snd ?clear)
         @ [AsyncBatchAnnotateFiles [example_request],
            Print ''OCR: waiting for the operation to finish.'',
            OperationResult 420]"
    using run s by simp
  have n: "filter is_submission (trace (snd ?run)) = [AsyncBatchAnnotateFiles [example_request]]"
    using run e by simp
  have r0: "fst ?late = Inl TimeoutError"
    using late s a0 by simp
  have n0: "filter is_submission (trace (snd ?late)) = [AsyncBatchAnnotateFiles [example_request]]"
    using late e by simp
  show ?thesis using c s a r t n a0 r0 n0 by (intro conjI)
qed

text \<open>
  Claim C10, as stated, fails: a URI of the form \<^verbatim>\<open>gs://<bucket>/<non-empty path>\<close> whose
  path begins with a line feed is not parsed, and one whose path holds a line feed later
  gives only the part of the path before it as prefix.
\<close>

theorem line_feed_in_path:
  "get_ocr_output_from_bucket example_loads
     (''gs://'' @ ''out'' @ ''/'' @ (CHR 0x0A # ''ocr/x/'')) ''out'' example_store
     = Inl AttributeError
   \<and> re_match_gs (''gs://'' @ ''out'' @ ''/'' @ (''ocr/x'' @ CHR 0x0A # ''y/''))
     = Some (''out'', ''ocr/x'')"
  by code_simp

text \<open>
  Claim C10, amended. When the URI is \<^verbatim>\<open>gs://<bucket>/<path>\<close>, with a bucket part that is
  not empty and has no \<open>/\<close>, and a path that is not empty and does not begin with a
  line feed, the parse succeeds and the prefix of the listing is the path up to its
  first line feed, which is the whole path when it has none. Every other argument makes
  the function raise \<open>AttributeError\<close>.
\<close>

theorem destination_uri_form:
  "(uri = ''gs://'' @ b @ ''/'' @ p \<and> b \<noteq> [] \<and> CHR ''/'' \<notin> set b
      \<and> p \<noteq> [] \<and> hd p \<noteq> CHR 0x0A
    \<longrightarrow> re_match_gs uri = Some (b, takeWhile (\<lambda>c. c \<noteq> CHR 0x0A) p)
        \<and> (CHR 0x0A \<notin> set p \<longrightarrow> re_match_gs uri = Some (b, p))
        \<and> get_ocr_output_from_bucket json_loads uri bucket_name st
            = (case get_bucket st bucket_name of
                 Inl e \<Rightarrow> Inl e
               | Inr bucket \<Rightarrow>
                   add_outputs json_loads []
                     (sorted_blobs
                        (list_blobs bucket (takeWhile (\<lambda>c. c \<noteq> CHR 0x0A) p)))))
   \<and> ((\<nexists>b p. uri = ''gs://'' @ b @ ''/'' @ p \<and> b \<noteq> [] \<and> CHR ''/'' \<notin> set b
               \<and> p \<noteq> [] \<and> hd p \<noteq> CHR 0x0A)
      \<longrightarrow> get_ocr_output_from_bucket json_loads uri bucket_name st = Inl AttributeError)"
proof (intro conjI impI)
  assume a: "uri = ''gs://'' @ b @ ''/'' @ p \<and> b \<noteq> [] \<and> CHR ''/'' \<notin> set b
      \<and> p \<noteq> [] \<and> hd p \<noteq> CHR 0x0A"
  then have ne: "takeWhile (\<lambda>c. c \<noteq> CHR 0x0A) p \<noteq> []"
    by (simp add: takeWhile_ne_Nil)
  show m: "re_match_gs uri = Some (b, takeWhile (\<lambda>c. c \<noteq> CHR 0x0A) p)"
    using a ne re_match_gs_of_form [of b p] by simp
  show "get_ocr_output_from_bucket json_loads uri bucket_name st
            = (case get_bucket st bucket_name of
                 Inl e \<Rightarrow> Inl e
               | Inr bucket \<Rightarrow>
                   add_outputs json_loads []
                     (sorted_blobs
                        (list_blobs bucket (takeWhile (\<lambda>c. c \<noteq> CHR 0x0A) p))))"
    by (simp add: get_ocr_output_from_bucket_def m Let_def split: sum.splits)
  assume "CHR 0x0A \<notin> set p"
  then have "takeWhile (\<lambda>c. c \<noteq> CHR 0x0A) p = p"
    by (auto simp: takeWhile_eq_all_conv)
  then show "re_match_gs uri = Some (b, p)" using m by simp
next
  assume n: "\<nexists>b p. uri = ''gs://'' @ b @ ''/'' @ p \<and> b \<noteq> [] \<and> CHR ''/'' \<notin> set b
               \<and> p \<noteq> [] \<and> hd p \<noteq> CHR 0x0A"
  have "re_match_gs uri = None"
  proof (cases "re_match_gs uri")
    case None
    then show ?thesis .
  next
    case (Some bq)
    obtain b q where "bq = (b, q)" by (cases bq)
    with Some have "re_match_gs uri = Some (b, q)" by simp
    then obtain p where "uri = ''gs://'' @ b @ ''/'' @ p" and "b \<noteq> []"
      and "CHR ''/'' \<notin> set b" and q: "q = takeWhile (\<lambda>c. c \<noteq> CHR 0x0A) p" and "q \<noteq> []"
      using re_match_gs_Some [of uri b q] by blast
    moreover have "p \<noteq> [] \<and> hd p \<noteq> CHR 0x0A"
      using \<open>q \<noteq> []\<close> takeWhile_Nil_hd [of "\<lambda>c. c \<noteq> CHR 0x0A" p] unfolding q by blast
    ultimately show ?thesis using n by blast
  qed
  then show "get_ocr_output_from_bucket json_loads uri bucket_name st = Inl AttributeError"
    by (simp add: get_ocr_output_from_bucket_def)
qed

text \<open>The URI of the example is of that form; without the scheme it is not.\<close>

theorem destination_uri_form_witness:
  "re_match_gs ''gs://out/ocr/x/'' = Some (''out'', ''ocr/x/'')
   \<and> get_ocr_output_from_bucket example_loads ''gs://out/ocr/x/'' ''out'' example_store
       = Inr ''Hello World''
   \<and> (\<nexists>b p. ''out/ocr/x/'' = ''gs://'' @ b @ ''/'' @ p \<and> b \<noteq> [] \<and> CHR ''/'' \<notin> set b
               \<and> p \<noteq> [] \<and> hd p \<noteq> CHR 0x0A)
   \<and> get_ocr_output_from_bucket example_loads ''out/ocr/x/'' ''out'' example_store
       = Inl AttributeError"
proof -
  have f: "''gs://out/ocr/x/'' = ''gs://'' @ ''out'' @ ''/'' @ ''ocr/x/'' \<and> ''out'' \<noteq> []
           \<and> CHR ''/'' \<notin> set ''out'' \<and> ''ocr/x/'' \<noteq> [] \<and> hd ''ocr/x/'' \<noteq> CHR 0x0A"
    by simp
  have nl: "CHR 0x0A \<notin> set ''ocr/x/''" by simp
  note ok = destination_uri_form
              [where uri = "''gs://out/ocr/x/''" and b = "''out''" and p = "''ocr/x/''"
                 and json_loads = example_loads and bucket_name = "''out''"
                 and st = example_store]
  have m: "re_match_gs ''gs://out/ocr/x/'' = Some (''out'', ''ocr/x/'')"
    using ok f nl by blast
  have r: "get_ocr_output_from_bucket example_loads ''gs://out/ocr/x/'' ''out'' example_store
       = Inr ''Hello World''"
    by code_simp
  have n: "\<nexists>b p. ''out/ocr/x/'' = ''gs://'' @ b @ ''/'' @ p \<and> b \<noteq> [] \<and> CHR ''/'' \<notin> set b
               \<and> p \<noteq> [] \<and> hd p \<noteq> CHR 0x0A"
    by simp
  have e: "get_ocr_output_from_bucket example_loads ''out/ocr/x/'' ''out'' example_store
       = Inl AttributeError"
    using destination_uri_form
              [where uri = "''out/ocr/x/''" and json_loads = example_loads
                 and bucket_name = "''out''" and st = example_store] n
    by blast
  show ?thesis using m r n e by (intro conjI)
qed

end
